theory Spec2Isabelle
  imports Main "HOL-Library.Sublist"
begin

section \<open>Asynchronous batch provisioning of disposable addresses\<close>

text \<open>
  A shallow embedding of the batch routes of the application:
  \<^item> \<^verbatim>\<open>app/api/emails/batch/create/route.ts\<close> (\<open>create_POST\<close>),
  \<^item> \<^verbatim>\<open>app/api/emails/batch/process/route.ts\<close> (\<open>process_POST\<close>, the advance operation),
  \<^item> the status route \<^verbatim>\<open>GET /batch/status/{taskId}\<close> (\<open>status_GET\<close>),
  \<^item> the download route \<^verbatim>\<open>GET /batch/download/{taskId}\<close> (\<open>download_GET\<close>).

  JavaScript numbers that hold counts and millisecond timestamps are \<open>int\<close>. Strings are
  byte strings (UTF-8), so the Chinese message literals of the source are written as their
  bytes. Everything a handler reads from outside (random identifiers, the clock, whether a
  storage operation throws) is an explicit input, the record \<open>runtime\<close>; everything it
  mutates (the key-value store, the two tables) is the record \<open>world\<close>, passed in and returned.
  Requests are handled one at a time: overlapping invocations are outside this model.
\<close>

subsection \<open>Message literals\<close>

text \<open>The string literals of the handlers, as UTF-8 bytes, each with its meaning.\<close>

definition msg_task_id_empty :: string where
  \<comment> \<open>``the task ID must not be empty'' (process route, status 400)\<close>
  "msg_task_id_empty =
     [CHR 0xE4, CHR 0xBB, CHR 0xBB, CHR 0xE5, CHR 0x8A, CHR 0xA1] @ ''ID'' @ [CHR 0xE4, CHR
     0xB8, CHR 0x8D, CHR 0xE8, CHR 0x83, CHR 0xBD, CHR 0xE4, CHR 0xB8, CHR 0xBA, CHR 0xE7,
     CHR 0xA9, CHR 0xBA]"

definition msg_task_missing_or_expired :: string where
  \<comment> \<open>``the task does not exist or has expired'' (process and status routes, status 404)\<close>
  "msg_task_missing_or_expired =
     [CHR 0xE4, CHR 0xBB, CHR 0xBB, CHR 0xE5, CHR 0x8A, CHR 0xA1, CHR 0xE4, CHR 0xB8, CHR
     0x8D, CHR 0xE5, CHR 0xAD, CHR 0x98, CHR 0xE5, CHR 0x9C, CHR 0xA8, CHR 0xE6, CHR 0x88,
     CHR 0x96, CHR 0xE5, CHR 0xB7, CHR 0xB2, CHR 0xE8, CHR 0xBF, CHR 0x87, CHR 0xE6, CHR
     0x9C, CHR 0x9F]"

definition msg_task_completed :: string where
  \<comment> \<open>``the task is completed'' (process route)\<close>
  "msg_task_completed =
     [CHR 0xE4, CHR 0xBB, CHR 0xBB, CHR 0xE5, CHR 0x8A, CHR 0xA1, CHR 0xE5, CHR 0xB7, CHR
     0xB2, CHR 0xE5, CHR 0xAE, CHR 0x8C, CHR 0xE6, CHR 0x88, CHR 0x90]"

definition msg_task_failed :: string where
  \<comment> \<open>``the task has failed'' (process route)\<close>
  "msg_task_failed =
     [CHR 0xE4, CHR 0xBB, CHR 0xBB, CHR 0xE5, CHR 0x8A, CHR 0xA1, CHR 0xE5, CHR 0xB7, CHR
     0xB2, CHR 0xE5, CHR 0xA4, CHR 0xB1, CHR 0xE8, CHR 0xB4, CHR 0xA5]"

definition msg_insert_failed_prefix :: string where
  \<comment> \<open>``inserting the addresses failed: '', the prefix of the error thrown for a failed insert\<close>
  "msg_insert_failed_prefix =
     [CHR 0xE9, CHR 0x82, CHR 0xAE, CHR 0xE7, CHR 0xAE, CHR 0xB1, CHR 0xE6, CHR 0x8F, CHR
     0x92, CHR 0xE5, CHR 0x85, CHR 0xA5, CHR 0xE5, CHR 0xA4, CHR 0xB1, CHR 0xE8, CHR 0xB4,
     CHR 0xA5] @ '': ''"

definition msg_unknown_error :: string where
  \<comment> \<open>``unknown error''\<close>
  "msg_unknown_error =
     [CHR 0xE6, CHR 0x9C, CHR 0xAA, CHR 0xE7, CHR 0x9F, CHR 0xA5, CHR 0xE9, CHR 0x94, CHR
     0x99, CHR 0xE8, CHR 0xAF, CHR 0xAF]"

definition msg_processing_failed :: string where
  \<comment> \<open>``processing failed'', the task's error when the thrown value is no \<^verbatim>\<open>Error\<close>\<close>
  "msg_processing_failed =
     [CHR 0xE5, CHR 0xA4, CHR 0x84, CHR 0xE7, CHR 0x90, CHR 0x86, CHR 0xE5, CHR 0xA4, CHR
     0xB1, CHR 0xE8, CHR 0xB4, CHR 0xA5]"

definition msg_process_batch_failed :: string where
  \<comment> \<open>``processing the batch task failed'' (process route, status 500)\<close>
  "msg_process_batch_failed =
     [CHR 0xE5, CHR 0xA4, CHR 0x84, CHR 0xE7, CHR 0x90, CHR 0x86, CHR 0xE6, CHR 0x89, CHR
     0xB9, CHR 0xE9, CHR 0x87, CHR 0x8F, CHR 0xE4, CHR 0xBB, CHR 0xBB, CHR 0xE5, CHR 0x8A,
     CHR 0xA1, CHR 0xE5, CHR 0xA4, CHR 0xB1, CHR 0xE8, CHR 0xB4, CHR 0xA5]"

definition msg_unauthorized :: string where
  \<comment> \<open>``unauthorized'' (status 401)\<close>
  "msg_unauthorized =
     [CHR 0xE6, CHR 0x9C, CHR 0xAA, CHR 0xE6, CHR 0x8E, CHR 0x88, CHR 0xE6, CHR 0x9D, CHR
     0x83]"

definition msg_forbidden_task :: string where
  \<comment> \<open>``no permission to access this task'' (status 403)\<close>
  "msg_forbidden_task =
     [CHR 0xE6, CHR 0x97, CHR 0xA0, CHR 0xE6, CHR 0x9D, CHR 0x83, CHR 0xE8, CHR 0xAE, CHR
     0xBF, CHR 0xE9, CHR 0x97, CHR 0xAE, CHR 0xE6, CHR 0xAD, CHR 0xA4, CHR 0xE4, CHR 0xBB,
     CHR 0xBB, CHR 0xE5, CHR 0x8A, CHR 0xA1]"

definition msg_status_failed :: string where
  \<comment> \<open>``getting the task status failed'' (status route, status 500)\<close>
  "msg_status_failed =
     [CHR 0xE8, CHR 0x8E, CHR 0xB7, CHR 0xE5, CHR 0x8F, CHR 0x96, CHR 0xE4, CHR 0xBB, CHR
     0xBB, CHR 0xE5, CHR 0x8A, CHR 0xA1, CHR 0xE7, CHR 0x8A, CHR 0xB6, CHR 0xE6, CHR 0x80,
     CHR 0x81, CHR 0xE5, CHR 0xA4, CHR 0xB1, CHR 0xE8, CHR 0xB4, CHR 0xA5]"

definition msg_task_not_completed :: string where
  \<comment> \<open>``the task is not completed yet'' (download route, status 400)\<close>
  "msg_task_not_completed =
     [CHR 0xE4, CHR 0xBB, CHR 0xBB, CHR 0xE5, CHR 0x8A, CHR 0xA1, CHR 0xE5, CHR 0xB0, CHR
     0x9A, CHR 0xE6, CHR 0x9C, CHR 0xAA, CHR 0xE5, CHR 0xAE, CHR 0x8C, CHR 0xE6, CHR 0x88,
     CHR 0x90]"

definition msg_task_missing :: string where
  \<comment> \<open>``the task does not exist'' (download route, status 404)\<close>
  "msg_task_missing =
     [CHR 0xE4, CHR 0xBB, CHR 0xBB, CHR 0xE5, CHR 0x8A, CHR 0xA1, CHR 0xE4, CHR 0xB8, CHR
     0x8D, CHR 0xE5, CHR 0xAD, CHR 0x98, CHR 0xE5, CHR 0x9C, CHR 0xA8]"

definition msg_no_addresses :: string where
  \<comment> \<open>``there are no addresses to download'' (download route, status 400)\<close>
  "msg_no_addresses =
     [CHR 0xE6, CHR 0xB2, CHR 0xA1, CHR 0xE6, CHR 0x9C, CHR 0x89, CHR 0xE5, CHR 0x8F, CHR
     0xAF, CHR 0xE4, CHR 0xB8, CHR 0x8B, CHR 0xE8, CHR 0xBD, CHR 0xBD, CHR 0xE7, CHR 0x9A,
     CHR 0x84, CHR 0xE9, CHR 0x82, CHR 0xAE, CHR 0xE7, CHR 0xAE, CHR 0xB1, CHR 0xE5, CHR
     0x9C, CHR 0xB0, CHR 0xE5, CHR 0x9D, CHR 0x80]"

definition msg_download_failed :: string where
  \<comment> \<open>``the download failed'' (download route, status 500)\<close>
  "msg_download_failed =
     [CHR 0xE4, CHR 0xB8, CHR 0x8B, CHR 0xE8, CHR 0xBD, CHR 0xBD, CHR 0xE5, CHR 0xA4, CHR
     0xB1, CHR 0xE8, CHR 0xB4, CHR 0xA5]"

definition msg_invalid_expiry :: string where
  \<comment> \<open>``invalid expiry time'' (create route, status 400)\<close>
  "msg_invalid_expiry =
     [CHR 0xE6, CHR 0x97, CHR 0xA0, CHR 0xE6, CHR 0x95, CHR 0x88, CHR 0xE7, CHR 0x9A, CHR
     0x84, CHR 0xE8, CHR 0xBF, CHR 0x87, CHR 0xE6, CHR 0x9C, CHR 0x9F, CHR 0xE6, CHR 0x97,
     CHR 0xB6, CHR 0xE9, CHR 0x97, CHR 0xB4]"

definition msg_invalid_domain :: string where
  \<comment> \<open>``invalid domain'' (create route, status 400)\<close>
  "msg_invalid_domain =
     [CHR 0xE6, CHR 0x97, CHR 0xA0, CHR 0xE6, CHR 0x95, CHR 0x88, CHR 0xE7, CHR 0x9A, CHR
     0x84, CHR 0xE5, CHR 0x9F, CHR 0x9F, CHR 0xE5, CHR 0x90, CHR 0x8D]"

definition msg_batch_started :: string where
  \<comment> \<open>``the batch task has started, query the progress with the task ID'' (create route)\<close>
  "msg_batch_started =
     [CHR 0xE6, CHR 0x89, CHR 0xB9, CHR 0xE9, CHR 0x87, CHR 0x8F, CHR 0xE5, CHR 0x88, CHR
     0x9B, CHR 0xE5, CHR 0xBB, CHR 0xBA, CHR 0xE4, CHR 0xBB, CHR 0xBB, CHR 0xE5, CHR 0x8A,
     CHR 0xA1, CHR 0xE5, CHR 0xB7, CHR 0xB2, CHR 0xE5, CHR 0x90, CHR 0xAF, CHR 0xE5, CHR
     0x8A, CHR 0xA8, CHR 0xEF, CHR 0xBC, CHR 0x8C, CHR 0xE8, CHR 0xAF, CHR 0xB7, CHR 0xE4,
     CHR 0xBD, CHR 0xBF, CHR 0xE7, CHR 0x94, CHR 0xA8, CHR 0xE4, CHR 0xBB, CHR 0xBB, CHR
     0xE5, CHR 0x8A, CHR 0xA1] @ ''ID'' @ [CHR 0xE6, CHR 0x9F, CHR 0xA5, CHR 0xE8, CHR 0xAF,
     CHR 0xA2, CHR 0xE8, CHR 0xBF, CHR 0x9B, CHR 0xE5, CHR 0xBA, CHR 0xA6]"

definition msg_use_generate :: string where
  \<comment> \<open>``use the endpoint /api/emails/generate for small batches (at most 50)'' (create route, status 400)\<close>
  "msg_use_generate =
     [CHR 0xE8, CHR 0xAF, CHR 0xB7, CHR 0xE4, CHR 0xBD, CHR 0xBF, CHR 0xE7, CHR 0x94, CHR
     0xA8] @ '' /api/emails/generate '' @ [CHR 0xE6, CHR 0x8E, CHR 0xA5, CHR 0xE5, CHR 0x8F,
     CHR 0xA3, CHR 0xE8, CHR 0xBF, CHR 0x9B, CHR 0xE8, CHR 0xA1, CHR 0x8C, CHR 0xE5, CHR
     0xB0, CHR 0x8F, CHR 0xE6, CHR 0x89, CHR 0xB9, CHR 0xE9, CHR 0x87, CHR 0x8F, CHR 0xE5,
     CHR 0x88, CHR 0x9B, CHR 0xE5, CHR 0xBB, CHR 0xBA, CHR 0xEF, CHR 0xBC, CHR 0x88, CHR
     0xE2, CHR 0x89, CHR 0xA4] @ ''50'' @ [CHR 0xEF, CHR 0xBC, CHR 0x89]"

definition msg_create_failed :: string where
  \<comment> \<open>``creating the batch task failed'' (create route, status 500)\<close>
  "msg_create_failed =
     [CHR 0xE5, CHR 0x88, CHR 0x9B, CHR 0xE5, CHR 0xBB, CHR 0xBA, CHR 0xE6, CHR 0x89, CHR
     0xB9, CHR 0xE9, CHR 0x87, CHR 0x8F, CHR 0xE4, CHR 0xBB, CHR 0xBB, CHR 0xE5, CHR 0x8A,
     CHR 0xA1, CHR 0xE5, CHR 0xA4, CHR 0xB1, CHR 0xE8, CHR 0xB4, CHR 0xA5]"

subsection \<open>Data model\<close>

datatype task_status = Pending | Processing | Completed | Failed

text \<open>The interface \<^verbatim>\<open>BatchTask\<close>; the optional fields \<^verbatim>\<open>error\<close> and \<^verbatim>\<open>emailList\<close> are
  \<open>None\<close> when the property is absent (\<^verbatim>\<open>undefined\<close>).\<close>

record batch_task =
  taskId :: string
  userId :: string
  domain :: string
  expiryTime :: int
  totalCount :: int
  processedCount :: int
  createdCount :: int
  status :: task_status
  error :: "string option"
  createdAt :: int
  updatedAt :: int
  emailList :: "string list option"

text \<open>A row of the table \<^verbatim>\<open>emails\<close>, with the columns the batch routes write and read (the
  generated \<^verbatim>\<open>id\<close> is not used by them).\<close>

record email_row =
  email_address :: string
  email_createdAt :: int
  email_expiresAt :: int
  email_userId :: string

text \<open>A row of the table \<^verbatim>\<open>batch_task\<close> (migration 0017), keyed by its \<^verbatim>\<open>id\<close>.\<close>

record batch_task_row =
  row_userId :: string
  row_domain :: string
  row_totalCount :: int
  row_createdCount :: int
  row_status :: task_status
  row_error :: "string option"
  row_createdAt :: int
  row_completedAt :: "int option"

text \<open>
  The stores. \<open>kv_tasks\<close> is the part of the key-value namespace \<^verbatim>\<open>SITE_CONFIG\<close> under the keys
  \<^verbatim>\<open>batch_task:<taskId>\<close>, holding the parsed JSON; \<open>kv_email_domains\<close> is its key
  \<^verbatim>\<open>EMAIL_DOMAINS\<close>. \<open>max_emails\<close> is the number that \<^verbatim>\<open>Number(maxEmails)\<close> yields for the
  key \<^verbatim>\<open>MAX_EMAILS\<close> (or for the default \<^verbatim>\<open>EMAIL_CONFIG.MAX_ACTIVE_EMAILS\<close>), \<open>None\<close> when that is
  \<^verbatim>\<open>NaN\<close>. \<open>kv_log\<close> is the history of the successful writes under \<^verbatim>\<open>batch_task:\<close> keys, oldest
  first: an observer's record of every persisted task value, which no handler reads.
\<close>

record world =
  kv_tasks :: "string \<rightharpoonup> batch_task"
  kv_email_domains :: "string option"
  max_emails :: "int option"
  emails :: "email_row list"
  batch_tasks :: "string \<rightharpoonup> batch_task_row"
  kv_log :: "(string \<times> batch_task) list"

text \<open>A thrown JavaScript value: an \<^verbatim>\<open>Error\<close> with its message, or any other value.\<close>

datatype js_exn = JsError string | JsThrown

text \<open>The storage operations of the handlers that may throw.\<close>

datatype fault_point =
    KvGetTask             \<comment> \<open>the read of \<^verbatim>\<open>batch_task:<taskId>\<close> at the start of a handler\<close>
  | KvPutProcessing       \<comment> \<open>process: the write of the pending-to-processing change\<close>
  | DbFindEmail nat       \<comment> \<open>process: the existence query of the given attempt\<close>
  | DbInsertEmails nat    \<comment> \<open>process: the insert of the sub-batch starting at the given index\<close>
  | DbSaveCompleted       \<comment> \<open>process: the upsert of the completed history row\<close>
  | KvPutProgress         \<comment> \<open>process: the write of the updated task\<close>
  | KvGetOnFailure        \<comment> \<open>process, failure handler: the second read of the task\<close>
  | KvPutFailed           \<comment> \<open>process, failure handler: the write of the failed task\<close>
  | DbSaveFailed          \<comment> \<open>process, failure handler: the upsert of the failed history row\<close>
  | DbFindBatchTask       \<comment> \<open>download: the read of the history row\<close>
  | DbFindTaskEmails      \<comment> \<open>download: the query of the owner's addresses\<close>
  | ReadBody              \<comment> \<open>create: \<^verbatim>\<open>request.json()\<close>\<close>
  | KvGetDomains          \<comment> \<open>create: the read of \<^verbatim>\<open>EMAIL_DOMAINS\<close>\<close>
  | DbCountActive         \<comment> \<open>create: the read of \<^verbatim>\<open>MAX_EMAILS\<close> and the count query\<close>
  | KvPutTask             \<comment> \<open>create: the write of the new task\<close>

text \<open>The readings of the clock (\<^verbatim>\<open>Date.now()\<close>, \<^verbatim>\<open>new Date()\<close>) in the handlers.\<close>

datatype clock_read =
    AtMarkProcessing | AtGenerate | AtProgress | AtCompleted | AtFailed | AtFailedRow
  | AtQuota | AtCreate

text \<open>What one invocation reads from outside: \<open>nanoid k\<close> is the string returned by the
  \<open>k\<close>-th call of \<^verbatim>\<open>nanoid\<close> in the invocation (counted from 1), \<open>throws p\<close> the value thrown
  by the storage operation \<open>p\<close> if it throws.\<close>

record runtime =
  nanoid :: "nat \<Rightarrow> string"
  clock :: "clock_read \<Rightarrow> int"
  throws :: "fault_point \<Rightarrow> js_exn option"

text \<open>The JSON bodies of the responses.\<close>

record progress_body =
  pb_status :: task_status
  pb_error :: "string option"
  pb_processed :: int
  pb_total :: int
  pb_created :: int
  pb_progress :: "int option"
  pb_message :: "string option"
  pb_hasMore :: "bool option"

record status_body =
  sb_taskId :: string
  sb_status :: task_status
  sb_totalCount :: int
  sb_processedCount :: int
  sb_createdCount :: int
  sb_progress :: "int option"
  sb_error :: "string option"
  sb_createdAt :: int
  sb_updatedAt :: int

datatype response =
    ErrorJson nat string                   \<comment> \<open>\<^verbatim>\<open>{error}\<close> with the given HTTP status\<close>
  | ProgressJson progress_body             \<comment> \<open>status 200, process route\<close>
  | StatusJson status_body                 \<comment> \<open>status 200, status route\<close>
  | CreatedJson string task_status string  \<comment> \<open>status 200, create route: \<^verbatim>\<open>{taskId, status, message}\<close>\<close>
  | TextFile string                        \<comment> \<open>status 200, download route: the file content\<close>
  | QuotaJson int int int                  \<comment> \<open>status 403, create route: the message built from
                                               the current, the maximal and the requested count\<close>

subsection \<open>Helpers of the runtime\<close>

text \<open>\<^verbatim>\<open>toLowerCase\<close> and SQL \<^verbatim>\<open>LOWER\<close> on the ASCII letters; they agree on ASCII addresses, which
  is what the generator produces for an ASCII domain.\<close>

definition lower_char :: "char \<Rightarrow> char" where
  "lower_char c =
     (if (65::nat) \<le> of_char c \<and> of_char c \<le> (90::nat) then char_of (of_char c + (32::nat))
      else c)"

definition toLowerCase :: "string \<Rightarrow> string" where
  "toLowerCase s = map lower_char s"

text \<open>\<^verbatim>\<open>Math.round((p / t) * 100)\<close> as it is serialised: \<^verbatim>\<open>Math.round\<close> rounds halves up, and the
  non-finite results of a zero denominator become JSON \<^verbatim>\<open>null\<close> (\<open>None\<close>). The quotient is taken
  exactly here, where the source rounds it to a double first.\<close>

definition progress_of :: "int \<Rightarrow> int \<Rightarrow> int option" where
  "progress_of p t =
     (if t = 0 then None
      else if 0 < t then Some ((200 * p + t) div (2 * t))
      else Some ((200 * (- p) + (- t)) div (2 * (- t))))"

text \<open>\<^verbatim>\<open>xs.slice(i, j)\<close> for \<open>0 \<le> i \<le> j\<close>.\<close>

definition slice :: "nat \<Rightarrow> nat \<Rightarrow> 'a list \<Rightarrow> 'a list" where
  "slice i j xs = take (j - i) (drop i xs)"

text \<open>\<^verbatim>\<open>SITE_CONFIG.put(`batch_task:${taskId}`, JSON.stringify(task), {expirationTtl})\<close>. The
  expiry itself is the environment's step \<open>kv_expire\<close>.\<close>

definition kv_put :: "runtime \<Rightarrow> fault_point \<Rightarrow> string \<Rightarrow> batch_task \<Rightarrow> world \<Rightarrow> js_exn + world" where
  "kv_put rt p tid task w =
     (case throws rt p of
        Some e \<Rightarrow> Inl e
      | None \<Rightarrow> Inr (w\<lparr>kv_tasks := (kv_tasks w)(tid \<mapsto> task), kv_log := kv_log w @ [(tid, task)]\<rparr>))"


text \<open>\<^verbatim>\<open>db.query.emails.findFirst({where: eq(sql`LOWER(address)`, addressLower)})\<close>.\<close>

definition find_email_lower :: "email_row list \<Rightarrow> string \<Rightarrow> email_row option" where
  "find_email_lower tbl addressLower =
     find (\<lambda>r. toLowerCase (email_address r) = addressLower) tbl"

subsection \<open>The process route (advance)\<close>

definition PROCESS_BATCH_SIZE :: int where
  "PROCESS_BATCH_SIZE = 100"

definition INSERT_BATCH_SIZE :: nat where
  "INSERT_BATCH_SIZE = 20"

text \<open>The generation loop (lines 118 to 142): \<open>emailDataList\<close>, \<open>addressSet\<close> and \<open>attempts\<close> are
  the loop's variables. The existence query may throw, which ends the loop with the thrown
  value.\<close>

function generate_loop ::
  "runtime \<Rightarrow> email_row list \<Rightarrow> batch_task \<Rightarrow> int \<Rightarrow> int \<Rightarrow> int \<Rightarrow> int \<Rightarrow>
   email_row list \<Rightarrow> string set \<Rightarrow> nat \<Rightarrow> js_exn + (email_row list \<times> nat)" where
  "generate_loop rt tbl task now expires toProcess maxAttempts emailDataList addressSet attempts =
     (if int (length emailDataList) < toProcess \<and> int attempts < maxAttempts then
        (if toLowerCase (nanoid rt (attempts + 1) @ ''@'' @ domain task) \<in> addressSet then
           generate_loop rt tbl task now expires toProcess maxAttempts
             emailDataList addressSet (attempts + 1)
         else
           (case throws rt (DbFindEmail (attempts + 1)) of
              Some e \<Rightarrow> Inl e
            | None \<Rightarrow>
                (case find_email_lower tbl
                        (toLowerCase (nanoid rt (attempts + 1) @ ''@'' @ domain task)) of
                   Some existingEmail \<Rightarrow>
                     generate_loop rt tbl task now expires toProcess maxAttempts
                       emailDataList
                       (insert (toLowerCase (nanoid rt (attempts + 1) @ ''@'' @ domain task))
                          addressSet)
                       (attempts + 1)
                 | None \<Rightarrow>
                     generate_loop rt tbl task now expires toProcess maxAttempts
                       (emailDataList @
                          [\<lparr>email_address = nanoid rt (attempts + 1) @ ''@'' @ domain task,
                            email_createdAt = now, email_expiresAt = expires,
                            email_userId = userId task\<rparr>])
                       (insert (toLowerCase (nanoid rt (attempts + 1) @ ''@'' @ domain task))
                          addressSet)
                       (attempts + 1))))
      else Inr (emailDataList, attempts))"
  by pat_completeness auto
termination
  by (relation "measure (\<lambda>(rt, tbl, task, now, expires, toProcess, maxAttempts,
                            emailDataList, addressSet, attempts). nat (maxAttempts - int attempts))")
     auto

text \<open>The insert loop (lines 159 to 167). A sub-batch is inserted whole or the insert throws;
  the rows of the sub-batches inserted before a throw stay in the table.\<close>

function insert_loop ::
  "runtime \<Rightarrow> email_row list \<Rightarrow> nat \<Rightarrow> email_row list \<Rightarrow> int \<Rightarrow> string list \<Rightarrow>
   email_row list \<times> (js_exn + (int \<times> string list))" where
  "insert_loop rt emailDataList i tbl created createdAddresses =
     (if i < length emailDataList then
        (case throws rt (DbInsertEmails i) of
           Some insertError \<Rightarrow> (tbl, Inl insertError)
         | None \<Rightarrow>
             insert_loop rt emailDataList (i + INSERT_BATCH_SIZE)
               (tbl @ slice i (i + INSERT_BATCH_SIZE) emailDataList)
               (created + int (length (slice i (i + INSERT_BATCH_SIZE) emailDataList)))
               (createdAddresses @
                  map email_address (slice i (i + INSERT_BATCH_SIZE) emailDataList)))
      else (tbl, Inr (created, createdAddresses)))"
  by pat_completeness auto
termination
  by (relation "measure (\<lambda>(rt, emailDataList, i, tbl, created, createdAddresses).
                            length emailDataList - i)")
     (auto simp: INSERT_BATCH_SIZE_def)

text \<open>The error thrown at line 171 for a failed insert.\<close>

definition insert_error :: "js_exn \<Rightarrow> js_exn" where
  "insert_error insertError =
     JsError (msg_insert_failed_prefix @
              (case insertError of JsError m \<Rightarrow> m | JsThrown \<Rightarrow> msg_unknown_error))"

text \<open>The upsert of the history row of a completed task (lines 202 to 231); a throw inside
  is caught and only logged.\<close>

definition save_completed :: "runtime \<Rightarrow> string \<Rightarrow> batch_task \<Rightarrow> world \<Rightarrow> world" where
  "save_completed rt tid task w =
     (case throws rt DbSaveCompleted of
        Some dbError \<Rightarrow> w
      | None \<Rightarrow>
          (case batch_tasks w tid of
             Some existing \<Rightarrow>
               w\<lparr>batch_tasks := (batch_tasks w)(tid \<mapsto>
                    existing\<lparr>row_createdCount := createdCount task, row_status := Completed,
                             row_completedAt := Some (clock rt AtCompleted)\<rparr>)\<rparr>
           | None \<Rightarrow>
               w\<lparr>batch_tasks := (batch_tasks w)(tid \<mapsto>
                    \<lparr>row_userId = userId task, row_domain = domain task,
                     row_totalCount = totalCount task, row_createdCount = createdCount task,
                     row_status = Completed, row_error = None,
                     row_createdAt = createdAt task,
                     row_completedAt = Some (clock rt AtCompleted)\<rparr>)\<rparr>))"

text \<open>The update of the task after the inserts (lines 175 to 199), without the history row.\<close>

definition update_progress :: "runtime \<Rightarrow> batch_task \<Rightarrow> nat \<Rightarrow> int \<Rightarrow> string list \<Rightarrow> batch_task" where
  "update_progress rt task actualProcessed created createdAddresses =
     (let task1 = task\<lparr>processedCount := processedCount task + int actualProcessed,
                       createdCount := createdCount task + created,
                       updatedAt := clock rt AtProgress\<rparr>;
          task2 = (if createdAddresses \<noteq> [] then
                     task1\<lparr>emailList := Some ((case emailList task1 of None \<Rightarrow> [] | Some l \<Rightarrow> l)
                                               @ createdAddresses)\<rparr>
                   else task1);
          task3 = (if processedCount task2 > totalCount task2 then
                     task2\<lparr>processedCount := totalCount task2\<rparr>
                   else task2)
      in if processedCount task3 \<ge> totalCount task3 then
           task3\<lparr>processedCount := totalCount task3, status := Completed\<rparr>
         else task3)"

text \<open>The body returned at line 254.\<close>

definition progress_response :: "batch_task \<Rightarrow> response" where
  "progress_response task =
     ProgressJson \<lparr>pb_status = status task, pb_error = None,
                   pb_processed = processedCount task, pb_total = totalCount task,
                   pb_created = createdCount task,
                   pb_progress = progress_of (processedCount task) (totalCount task),
                   pb_message = None,
                   pb_hasMore = Some (processedCount task < totalCount task)\<rparr>"

text \<open>Lines 103 to 261: one chunk for a task in status processing. The result carries the
  world as the statements executed so far have left it, and either the response or the value
  thrown.\<close>

definition process_chunk :: "runtime \<Rightarrow> string \<Rightarrow> batch_task \<Rightarrow> world \<Rightarrow> world \<times> (js_exn + response)" where
  "process_chunk rt tid task w =
     (let remaining = totalCount task - processedCount task;
          toProcess = min PROCESS_BATCH_SIZE remaining;
          maxAttempts = toProcess * 5;
          now = clock rt AtGenerate;
          expires = (if expiryTime task = 0 then 253370764800000 else now + expiryTime task)
      in case generate_loop rt (emails w) task now expires toProcess maxAttempts [] {} 0 of
           Inl e \<Rightarrow> (w, Inl e)
         | Inr (emailDataList, attempts) \<Rightarrow>
             (case (if length emailDataList > 0
                    then insert_loop rt emailDataList 0 (emails w) 0 []
                    else (emails w, Inr (0, []))) of
                (tbl, Inl insertError) \<Rightarrow> (w\<lparr>emails := tbl\<rparr>, Inl (insert_error insertError))
              | (tbl, Inr (created, createdAddresses)) \<Rightarrow>
                  (let task' = update_progress rt task (length emailDataList) created
                                 createdAddresses;
                       w1 = w\<lparr>emails := tbl\<rparr>;
                       w2 = (if status task' = Completed then save_completed rt tid task' w1
                             else w1)
                   in case kv_put rt KvPutProgress tid task' w2 of
                        Inl e \<Rightarrow> (w2, Inl e)
                      | Inr w3 \<Rightarrow> (w3, Inr (progress_response task')))))"

text \<open>The body of the \<^verbatim>\<open>try\<close> block (lines 33 to 261). \<open>req\<close> is the query parameter
  \<^verbatim>\<open>taskId\<close>, \<open>None\<close> when it is absent.\<close>

definition snapshot_response :: "batch_task \<Rightarrow> response" where
  "snapshot_response task =
     ProgressJson \<lparr>pb_status = status task, pb_error = None,
                   pb_processed = processedCount task, pb_total = totalCount task,
                   pb_created = createdCount task,
                   pb_progress = progress_of (processedCount task) (totalCount task),
                   pb_message = Some (if status task = Completed then msg_task_completed
                                      else msg_task_failed),
                   pb_hasMore = None\<rparr>"

definition process_try :: "runtime \<Rightarrow> string option \<Rightarrow> world \<Rightarrow> world \<times> (js_exn + response)" where
  "process_try rt req w =
     (case req of
        None \<Rightarrow> (w, Inr (ErrorJson 400 msg_task_id_empty))
      | Some tid \<Rightarrow>
          if tid = [] then (w, Inr (ErrorJson 400 msg_task_id_empty))
          else
            (case throws rt KvGetTask of
               Some e \<Rightarrow> (w, Inl e)
             | None \<Rightarrow>
                 (case kv_tasks w tid of
                    None \<Rightarrow> (w, Inr (ErrorJson 404 msg_task_missing_or_expired))
                  | Some task \<Rightarrow>
                      if status task = Completed then
                        (w, Inr (ProgressJson
                           \<lparr>pb_status = Completed, pb_error = None,
                            pb_processed = processedCount task, pb_total = totalCount task,
                            pb_created = createdCount task, pb_progress = Some 100,
                            pb_message = Some msg_task_completed, pb_hasMore = None\<rparr>))
                      else if status task = Failed then
                        (w, Inr (ProgressJson
                           \<lparr>pb_status = Failed, pb_error = error task,
                            pb_processed = processedCount task, pb_total = totalCount task,
                            pb_created = createdCount task,
                            pb_progress = progress_of (processedCount task) (totalCount task),
                            pb_message = None, pb_hasMore = None\<rparr>))
                      else if status task = Processing
                              \<and> processedCount task < totalCount task then
                        process_chunk rt tid task w
                      else if status task = Pending then
                        (case kv_put rt KvPutProcessing tid
                                (task\<lparr>status := Processing,
                                      updatedAt := clock rt AtMarkProcessing\<rparr>) w of
                           Inl e \<Rightarrow> (w, Inl e)
                         | Inr w' \<Rightarrow>
                             process_chunk rt tid
                               (task\<lparr>status := Processing,
                                     updatedAt := clock rt AtMarkProcessing\<rparr>) w')
                      else (w, Inr (snapshot_response task)))))"

text \<open>The upsert of the history row of a failed task (lines 285 to 315); a throw inside is
  caught and only logged.\<close>

definition save_failed :: "runtime \<Rightarrow> string \<Rightarrow> batch_task \<Rightarrow> world \<Rightarrow> world" where
  "save_failed rt tid task w =
     (case throws rt DbSaveFailed of
        Some dbError \<Rightarrow> w
      | None \<Rightarrow>
          (case batch_tasks w tid of
             Some existing \<Rightarrow>
               w\<lparr>batch_tasks := (batch_tasks w)(tid \<mapsto>
                    existing\<lparr>row_createdCount := createdCount task, row_status := Failed,
                             row_error := error task,
                             row_completedAt := Some (clock rt AtFailedRow)\<rparr>)\<rparr>
           | None \<Rightarrow>
               w\<lparr>batch_tasks := (batch_tasks w)(tid \<mapsto>
                    \<lparr>row_userId = userId task, row_domain = domain task,
                     row_totalCount = totalCount task, row_createdCount = createdCount task,
                     row_status = Failed, row_error = error task,
                     row_createdAt = createdAt task,
                     row_completedAt = Some (clock rt AtFailedRow)\<rparr>)\<rparr>))"

text \<open>The \<^verbatim>\<open>catch\<close> block (lines 262 to 320), for the thrown value \<open>e\<close>: the task is read
  again, marked failed and written back; a throw inside is caught and only logged.\<close>

definition mark_failed :: "runtime \<Rightarrow> js_exn \<Rightarrow> batch_task \<Rightarrow> batch_task" where
  "mark_failed rt e task =
     task\<lparr>status := Failed,
          error := Some (case e of JsError m \<Rightarrow> m | JsThrown \<Rightarrow> msg_processing_failed),
          updatedAt := clock rt AtFailed\<rparr>"

definition process_catch :: "runtime \<Rightarrow> string option \<Rightarrow> js_exn \<Rightarrow> world \<Rightarrow> world" where
  "process_catch rt req e w =
     (case req of
        None \<Rightarrow> w
      | Some tid \<Rightarrow>
          if tid = [] then w
          else
            (case throws rt KvGetOnFailure of
               Some updateError \<Rightarrow> w
             | None \<Rightarrow>
                 (case kv_tasks w tid of
                    None \<Rightarrow> w
                  | Some task \<Rightarrow>
                      (case kv_put rt KvPutFailed tid (mark_failed rt e task) w of
                         Inl updateError \<Rightarrow> w
                       | Inr w' \<Rightarrow> save_failed rt tid (mark_failed rt e task) w'))))"

text \<open>The handler: the response and the world it leaves.\<close>

definition process_POST :: "runtime \<Rightarrow> string option \<Rightarrow> world \<Rightarrow> response \<times> world" where
  "process_POST rt req w =
     (case process_try rt req w of
        (w', Inr r) \<Rightarrow> (r, w')
      | (w', Inl e) \<Rightarrow> (ErrorJson 500 msg_process_batch_failed, process_catch rt req e w'))"

subsection \<open>The create route\<close>

definition ASYNC_THRESHOLD :: int where
  "ASYNC_THRESHOLD = 50"

text \<open>\<^verbatim>\<open>s.split(c)\<close> for a separator of one character.\<close>

fun split_on :: "char \<Rightarrow> string \<Rightarrow> string list" where
  "split_on c [] = [[]]"
| "split_on c (x # xs) =
     (if x = c then [] # split_on c xs
      else (case split_on c xs of [] \<Rightarrow> [[x]] | y # ys \<Rightarrow> (x # y) # ys))"

text \<open>What the handler reads from the request: \<open>cr_userId\<close> is the result of \<^verbatim>\<open>getUserId()\<close>,
  \<open>cr_isEmperor\<close> says whether \<^verbatim>\<open>getUserRole(userId)\<close> is \<^verbatim>\<open>ROLES.EMPEROR\<close>, the rest is the JSON
  body (\<open>cr_batch\<close> is \<open>None\<close> when the property is absent).\<close>

record create_request =
  cr_userId :: "string option"
  cr_isEmperor :: bool
  cr_expiryTime :: int
  cr_domain :: string
  cr_batch :: "int option"

text \<open>The body of the \<^verbatim>\<open>try\<close> block (lines 46 to 153) for the user \<open>uid\<close>. \<open>expiry_options\<close> are
  the values of \<^verbatim>\<open>EXPIRY_OPTIONS\<close>, a constant of \<^verbatim>\<open>@/types/email\<close>. The request that the
  handler sends to the process route without waiting for it (lines 125 to 140) is a later
  invocation of \<open>process_POST\<close>, if it arrives at all.\<close>

definition create_try ::
  "runtime \<Rightarrow> int list \<Rightarrow> string \<Rightarrow> create_request \<Rightarrow> world \<Rightarrow> world \<times> (js_exn + response)" where
  "create_try rt expiry_options uid req w =
     (case throws rt ReadBody of
        Some e \<Rightarrow> (w, Inl e)
      | None \<Rightarrow>
          (let batchCount = (case cr_batch req of None \<Rightarrow> 1 | Some b \<Rightarrow> if b = 0 then 1 else b)
           in if cr_expiryTime req \<notin> set expiry_options then
                (w, Inr (ErrorJson 400 msg_invalid_expiry))
              else
                (case throws rt KvGetDomains of
                   Some e \<Rightarrow> (w, Inl e)
                 | None \<Rightarrow>
                     if cr_domain req \<notin>
                          set (case kv_email_domains w of
                                 None \<Rightarrow> [''moemail.app'']
                               | Some domainString \<Rightarrow>
                                   if domainString = [] then [''moemail.app'']
                                   else split_on CHR '','' domainString) then
                       (w, Inr (ErrorJson 400 msg_invalid_domain))
                     else
                       (case (if cr_isEmperor req then Inr None
                              else
                                (case throws rt DbCountActive of
                                   Some e \<Rightarrow> Inl e
                                 | None \<Rightarrow>
                                     (let currentCount =
                                            int (length (filter
                                              (\<lambda>r. email_userId r = uid
                                                  \<and> email_expiresAt r > clock rt AtQuota)
                                              (emails w)))
                                      in case max_emails w of
                                           None \<Rightarrow> Inr None
                                         | Some maxCount \<Rightarrow>
                                             if currentCount + batchCount > maxCount then
                                               Inr (Some (QuotaJson currentCount maxCount
                                                            batchCount))
                                             else Inr None))) of
                          Inl e \<Rightarrow> (w, Inl e)
                        | Inr (Some rejection) \<Rightarrow> (w, Inr rejection)
                        | Inr None \<Rightarrow>
                            if batchCount > ASYNC_THRESHOLD then
                              (case kv_put rt KvPutTask (nanoid rt 1)
                                      \<lparr>taskId = nanoid rt 1, userId = uid,
                                       domain = cr_domain req,
                                       expiryTime = cr_expiryTime req,
                                       totalCount = batchCount, processedCount = 0,
                                       createdCount = 0, status = Pending, error = None,
                                       createdAt = clock rt AtCreate,
                                       updatedAt = clock rt AtCreate, emailList = None\<rparr> w of
                                 Inl e \<Rightarrow> (w, Inl e)
                               | Inr w' \<Rightarrow>
                                   (w', Inr (CreatedJson (nanoid rt 1) Pending
                                               msg_batch_started)))
                            else (w, Inr (ErrorJson 400 msg_use_generate))))))"

definition create_POST ::
  "runtime \<Rightarrow> int list \<Rightarrow> create_request \<Rightarrow> world \<Rightarrow> response \<times> world" where
  "create_POST rt expiry_options req w =
     (case cr_userId req of
        None \<Rightarrow> (ErrorJson 401 msg_unauthorized, w)
      | Some uid \<Rightarrow>
          if uid = [] then (ErrorJson 401 msg_unauthorized, w)
          else
            (case create_try rt expiry_options uid req w of
               (w', Inr r) \<Rightarrow> (r, w')
             | (w', Inl e) \<Rightarrow> (ErrorJson 500 msg_create_failed, w')))"

subsection \<open>The status route\<close>

text \<open>\<open>requester\<close> is the result of \<^verbatim>\<open>getUserId()\<close>. The handler writes nothing.\<close>

definition status_GET :: "runtime \<Rightarrow> string option \<Rightarrow> string \<Rightarrow> world \<Rightarrow> response" where
  "status_GET rt requester tid w =
     (case requester of
        None \<Rightarrow> ErrorJson 401 msg_unauthorized
      | Some uid \<Rightarrow>
          if uid = [] then ErrorJson 401 msg_unauthorized
          else
            (case throws rt KvGetTask of
               Some e \<Rightarrow> ErrorJson 500 msg_status_failed
             | None \<Rightarrow>
                 (case kv_tasks w tid of
                    None \<Rightarrow> ErrorJson 404 msg_task_missing_or_expired
                  | Some task \<Rightarrow>
                      if userId task \<noteq> uid then ErrorJson 403 msg_forbidden_task
                      else
                        StatusJson
                          \<lparr>sb_taskId = taskId task, sb_status = status task,
                           sb_totalCount = totalCount task,
                           sb_processedCount = processedCount task,
                           sb_createdCount = createdCount task,
                           sb_progress = progress_of (processedCount task) (totalCount task),
                           sb_error = error task, sb_createdAt = createdAt task,
                           sb_updatedAt = updatedAt task\<rparr>)))"

subsection \<open>The download route\<close>

text \<open>\<^verbatim>\<open>xs.join("\n")\<close>.\<close>

fun join_lines :: "string list \<Rightarrow> string" where
  "join_lines [] = []"
| "join_lines [x] = x"
| "join_lines (x # y # ys) = x @ [CHR 0x0A] @ join_lines (y # ys)"

text \<open>\<^verbatim>\<open>xs.slice(0, n)\<close>, where a negative \<open>n\<close> counts from the end; and SQL \<^verbatim>\<open>LIMIT n\<close>, where a
  negative \<open>n\<close> is no limit.\<close>

definition slice_to :: "int \<Rightarrow> 'a list \<Rightarrow> 'a list" where
  "slice_to n xs = (if 0 \<le> n then take (nat n) xs else take (nat (int (length xs) + n)) xs)"

definition sql_limit :: "int \<Rightarrow> 'a list \<Rightarrow> 'a list" where
  "sql_limit n xs = (if 0 \<le> n then take (nat n) xs else xs)"

text \<open>Lines 102 to 118 of the handler: the addresses of the owner created since the task's
  row was, oldest first (rows of equal time in table order), cut to twice the total; of these
  the ones that end in the task's domain, cut to the created count.\<close>

definition reconstruct :: "string \<Rightarrow> batch_task_row \<Rightarrow> email_row list \<Rightarrow> string list" where
  "reconstruct uid dbTask tbl =
     (let taskEmails =
            sql_limit (row_totalCount dbTask * 2)
              (sort_key email_createdAt
                 (filter (\<lambda>r. email_userId r = uid \<and> email_createdAt r \<ge> row_createdAt dbTask)
                    tbl))
      in map email_address
           (slice_to (row_createdCount dbTask)
              (filter (\<lambda>r. suffix (''@'' @ row_domain dbTask) (email_address r)) taskEmails)))"

definition download_file :: "string list \<Rightarrow> response" where
  "download_file email_list =
     (if length email_list = 0 then ErrorJson 400 msg_no_addresses
      else TextFile (join_lines email_list))"

text \<open>The handler writes nothing; the headers of the file response are left out.\<close>

definition download_GET :: "runtime \<Rightarrow> string option \<Rightarrow> string \<Rightarrow> world \<Rightarrow> response" where
  "download_GET rt requester tid w =
     (case requester of
        None \<Rightarrow> ErrorJson 401 msg_unauthorized
      | Some uid \<Rightarrow>
          if uid = [] then ErrorJson 401 msg_unauthorized
          else
            (case throws rt KvGetTask of
               Some e \<Rightarrow> ErrorJson 500 msg_download_failed
             | None \<Rightarrow>
                 (case kv_tasks w tid of
                    Some task \<Rightarrow>
                      if userId task \<noteq> uid then ErrorJson 403 msg_forbidden_task
                      else if status task \<noteq> Completed then
                        ErrorJson 400 msg_task_not_completed
                      else download_file (case emailList task of None \<Rightarrow> [] | Some l \<Rightarrow> l)
                  | None \<Rightarrow>
                      (case throws rt DbFindBatchTask of
                         Some e \<Rightarrow> ErrorJson 500 msg_download_failed
                       | None \<Rightarrow>
                           (case batch_tasks w tid of
                              None \<Rightarrow> ErrorJson 404 msg_task_missing
                            | Some dbTask \<Rightarrow>
                                if row_userId dbTask \<noteq> uid then
                                  ErrorJson 403 msg_forbidden_task
                                else if row_status dbTask \<noteq> Completed then
                                  ErrorJson 400 msg_task_not_completed
                                else
                                  (case throws rt DbFindTaskEmails of
                                     Some e \<Rightarrow> ErrorJson 500 msg_download_failed
                                   | None \<Rightarrow>
                                       download_file
                                         (reconstruct uid dbTask (emails w))))))))"

section \<open>Vocabulary of the properties\<close>

text \<open>The address drawn at the \<open>k\<close>-th attempt of a call (line 120), and the row that is
  pushed for it when it is accepted (lines 135 to 140).\<close>

definition candidate :: "runtime \<Rightarrow> batch_task \<Rightarrow> nat \<Rightarrow> string" where
  "candidate rt task k = nanoid rt k @ ''@'' @ domain task"

definition candidate_row :: "runtime \<Rightarrow> batch_task \<Rightarrow> int \<Rightarrow> int \<Rightarrow> nat \<Rightarrow> email_row" where
  "candidate_row rt task now expires k =
     \<lparr>email_address = candidate rt task k, email_createdAt = now, email_expiresAt = expires,
      email_userId = userId task\<rparr>"

text \<open>The chunk size \<^verbatim>\<open>toProcess\<close>, the expiry time of the addresses of a call, and the run of the
  generation loop as \<open>process_chunk\<close> starts it.\<close>

definition chunk_size :: "batch_task \<Rightarrow> int" where
  "chunk_size task = min PROCESS_BATCH_SIZE (totalCount task - processedCount task)"

definition expires_at :: "runtime \<Rightarrow> batch_task \<Rightarrow> int" where
  "expires_at rt task =
     (if expiryTime task = 0 then 253370764800000 else clock rt AtGenerate + expiryTime task)"

definition generated :: "runtime \<Rightarrow> world \<Rightarrow> batch_task \<Rightarrow> js_exn + (email_row list \<times> nat)" where
  "generated rt w task =
     generate_loop rt (emails w) task (clock rt AtGenerate) (expires_at rt task)
       (chunk_size task) (chunk_size task * 5) [] {} 0"

text \<open>The count \<^verbatim>\<open>batch || 1\<close> of a create request and the task that the create route stores
  for it (lines 103 to 114).\<close>

definition batch_count :: "create_request \<Rightarrow> int" where
  "batch_count req = (case cr_batch req of None \<Rightarrow> 1 | Some b \<Rightarrow> if b = 0 then 1 else b)"

definition new_task :: "runtime \<Rightarrow> string \<Rightarrow> create_request \<Rightarrow> batch_task" where
  "new_task rt uid req =
     \<lparr>taskId = nanoid rt 1, userId = uid, domain = cr_domain req,
      expiryTime = cr_expiryTime req, totalCount = batch_count req, processedCount = 0,
      createdCount = 0, status = Pending, error = None, createdAt = clock rt AtCreate,
      updatedAt = clock rt AtCreate, emailList = None\<rparr>"

text \<open>The domains that the create route accepts (lines 63 and 64), the number of active
  addresses that it counts for a user (lines 77 to 87), and the requests that pass its
  checks of expiry time, domain and quota.\<close>

definition allowed_domains :: "world \<Rightarrow> string list" where
  "allowed_domains w =
     (case kv_email_domains w of
        None \<Rightarrow> [''moemail.app'']
      | Some domainString \<Rightarrow>
          if domainString = [] then [''moemail.app''] else split_on CHR '','' domainString)"

definition active_count :: "runtime \<Rightarrow> string \<Rightarrow> world \<Rightarrow> int" where
  "active_count rt uid w =
     int (length (filter (\<lambda>r. email_userId r = uid \<and> email_expiresAt r > clock rt AtQuota)
                    (emails w)))"

definition valid_request :: "runtime \<Rightarrow> int list \<Rightarrow> string \<Rightarrow> create_request \<Rightarrow> world \<Rightarrow> bool" where
  "valid_request rt expiry_options uid req w \<longleftrightarrow>
     cr_userId req = Some uid \<and> uid \<noteq> [] \<and>
     cr_expiryTime req \<in> set expiry_options \<and>
     cr_domain req \<in> set (allowed_domains w) \<and>
     (cr_isEmperor req \<or>
      (case max_emails w of
         None \<Rightarrow> True
       | Some maxCount \<Rightarrow> active_count rt uid w + batch_count req \<le> maxCount))"

text \<open>The three endpoints of a task, for a request whose credentials \<^verbatim>\<open>getUserId()\<close> resolves
  to \<open>requester\<close>. The process route does not call \<^verbatim>\<open>getUserId\<close>, so the requester has no part
  in it.\<close>

datatype operation = StatusRead | Download | Advance

definition serve ::
  "runtime \<Rightarrow> operation \<Rightarrow> string option \<Rightarrow> string \<Rightarrow> world \<Rightarrow> response \<times> world" where
  "serve rt operation requester tid w =
     (case operation of
        StatusRead \<Rightarrow> (status_GET rt requester tid w, w)
      | Download \<Rightarrow> (download_GET rt requester tid w, w)
      | Advance \<Rightarrow> process_POST rt (Some tid) w)"

text \<open>\<^verbatim>\<open>task.emailList || []\<close>.\<close>

definition address_list :: "batch_task \<Rightarrow> string list" where
  "address_list t = (case emailList t of None \<Rightarrow> [] | Some l \<Rightarrow> l)"








text \<open>The rows of the first chunk-size attempts of a call. A call without generation
  collision: the addresses of these attempts are pairwise different ignoring case, and none
  of them is in the table ignoring case. And a call of the process route for a stored task
  in which no storage operation throws and no generation collision occurs.\<close>

definition chunk_rows :: "runtime \<Rightarrow> batch_task \<Rightarrow> email_row list" where
  "chunk_rows rt task =
     map (candidate_row rt task (clock rt AtGenerate) (expires_at rt task))
       [1..<Suc (nat (chunk_size task))]"

definition fresh_candidates :: "runtime \<Rightarrow> world \<Rightarrow> batch_task \<Rightarrow> bool" where
  "fresh_candidates rt w task \<longleftrightarrow>
     distinct (map (\<lambda>k. toLowerCase (candidate rt task k)) [1..<Suc (nat (chunk_size task))]) \<and>
     list_all (\<lambda>k. find_email_lower (emails w) (toLowerCase (candidate rt task k)) = None)
       [1..<Suc (nat (chunk_size task))]"

definition clean_call :: "runtime \<Rightarrow> string \<Rightarrow> world \<Rightarrow> bool" where
  "clean_call rt tid w \<longleftrightarrow>
     (\<forall>p. throws rt p = None) \<and>
     (case kv_tasks w tid of None \<Rightarrow> False | Some task \<Rightarrow> fresh_candidates rt w task)"

text \<open>A sequence of calls of the process route for one task, one runtime per call, and the
  condition that every call of the sequence finds the task, accepts no candidate, and that
  neither its read nor its write of the task throws.\<close>

fun advance_all :: "runtime list \<Rightarrow> string \<Rightarrow> world \<Rightarrow> world" where
  "advance_all [] tid w = w"
| "advance_all (rt # rts) tid w = advance_all rts tid (snd (process_POST rt (Some tid) w))"

fun zero_accepted_all :: "runtime list \<Rightarrow> string \<Rightarrow> world \<Rightarrow> bool" where
  "zero_accepted_all [] tid w = True"
| "zero_accepted_all (rt # rts) tid w =
     (throws rt KvGetTask = None \<and> throws rt KvPutProgress = None \<and>
      (case kv_tasks w tid of
         None \<Rightarrow> False
       | Some task \<Rightarrow>
           (case generated rt w task of Inl e \<Rightarrow> False | Inr (l, a) \<Rightarrow> l = [])) \<and>
      zero_accepted_all rts tid (snd (process_POST rt (Some tid) w)))"


subsection \<open>Auxiliary notions of the proofs\<close>

text \<open>What the accepted rows of a call are.\<close>

definition drawn :: "runtime \<Rightarrow> batch_task \<Rightarrow> int \<Rightarrow> int \<Rightarrow> nat \<Rightarrow> email_row \<Rightarrow> bool" where
  "drawn rt task now expires a r \<longleftrightarrow>
     (\<exists>k. 1 \<le> k \<and> k \<le> a \<and> r = candidate_row rt task now expires k)"

definition gen_inv ::
  "runtime \<Rightarrow> email_row list \<Rightarrow> batch_task \<Rightarrow> int \<Rightarrow> int \<Rightarrow> int \<Rightarrow> int \<Rightarrow>
   email_row list \<Rightarrow> string set \<Rightarrow> nat \<Rightarrow> bool" where
  "gen_inv rt tbl task now expires n m l S a \<longleftrightarrow>
     distinct (map (\<lambda>r. toLowerCase (email_address r)) l) \<and>
     (\<forall>r \<in> set l. toLowerCase (email_address r) \<in> S) \<and>
     (\<forall>r \<in> set l. find_email_lower tbl (toLowerCase (email_address r)) = None) \<and>
     (\<forall>r \<in> set l. drawn rt task now expires a r) \<and>
     int (length l) \<le> n \<and> int a \<le> m \<and> length l \<le> a"

text \<open>Lines 196 to 261 for the updated task \<open>t\<close>.\<close>

definition persist_progress ::
  "runtime \<Rightarrow> string \<Rightarrow> batch_task \<Rightarrow> world \<Rightarrow> world \<times> (js_exn + response)" where
  "persist_progress rt tid t w1 =
     (case kv_put rt KvPutProgress tid t
             (if status t = Completed then save_completed rt tid t w1 else w1) of
        Inl e \<Rightarrow> (if status t = Completed then save_completed rt tid t w1 else w1, Inl e)
      | Inr w3 \<Rightarrow> (w3, Inr (progress_response t)))"

text \<open>The task that a chunk with the accepted rows \<open>l\<close> writes.\<close>

definition advanced :: "runtime \<Rightarrow> batch_task \<Rightarrow> email_row list \<Rightarrow> batch_task" where
  "advanced rt task l =
     update_progress rt task (length l) (int (length l)) (map email_address l)"



subsection \<open>Example inputs\<close>

text \<open>A call whose generator returns the same identifier at every attempt, for a task with
  two addresses left.\<close>

definition c9_task :: batch_task where
  "c9_task =
     \<lparr>taskId = ''t001'', userId = ''alice'', domain = ''moemail.app'', expiryTime = 0,
      totalCount = 60, processedCount = 58, createdCount = 58, status = Processing,
      error = None, createdAt = 1000, updatedAt = 2000, emailList = None\<rparr>"

definition c9_rt :: runtime where
  "c9_rt = \<lparr>nanoid = (\<lambda>k. ''aaaaaaaa''), clock = (\<lambda>c. 5000), throws = (\<lambda>p. None)\<rparr>"

definition c9_world :: world where
  "c9_world =
     \<lparr>kv_tasks = [''t001'' \<mapsto> c9_task], kv_email_domains = None, max_emails = Some 1000,
      emails = [], batch_tasks = Map.empty, kv_log = [(''t001'', c9_task)]\<rparr>"





text \<open>A world in which the only identifier that \<open>c9_rt\<close> draws is taken.\<close>

definition c10_world :: world where
  "c10_world =
     \<lparr>kv_tasks = [''t001'' \<mapsto> c9_task], kv_email_domains = None, max_emails = Some 1000,
      emails = [\<lparr>email_address = ''AAAAAAAA@moemail.app'', email_createdAt = 10,
                 email_expiresAt = 253370764800000, email_userId = ''bob''\<rparr>],
      batch_tasks = Map.empty, kv_log = [(''t001'', c9_task)]\<rparr>"

text \<open>A call in which the insert of the first sub-batch throws.\<close>

definition c7_rt :: runtime where
  "c7_rt =
     \<lparr>nanoid = (\<lambda>k. if k = 1 then ''k3Jx_a9Q'' else ''Zp0-4mWb''), clock = (\<lambda>c. 5000),
      throws = (\<lambda>p. if p = DbInsertEmails 0 then Some (JsError ''D1_ERROR'') else None)\<rparr>"

text \<open>Create requests for 50 and for 51 addresses, with values of \<^verbatim>\<open>EXPIRY_OPTIONS\<close>, in a
  world without tasks.\<close>

definition c5_options :: "int list" where
  "c5_options = [3600000, 86400000, 259200000, 0]"

definition c5_world :: world where
  "c5_world =
     \<lparr>kv_tasks = Map.empty, kv_email_domains = Some ''moemail.app,example.org'',
      max_emails = Some 1000, emails = [], batch_tasks = Map.empty, kv_log = []\<rparr>"

definition c5_rt :: runtime where
  "c5_rt = \<lparr>nanoid = (\<lambda>k. ''V1StGXR8_Z5jdHi6''), clock = (\<lambda>c. 1000), throws = (\<lambda>p. None)\<rparr>"

definition c5_req50 :: create_request where
  "c5_req50 =
     \<lparr>cr_userId = Some ''alice'', cr_isEmperor = False, cr_expiryTime = 3600000,
      cr_domain = ''example.org'', cr_batch = Some 50\<rparr>"

definition c5_req51 :: create_request where
  "c5_req51 =
     \<lparr>cr_userId = Some ''alice'', cr_isEmperor = False, cr_expiryTime = 3600000,
      cr_domain = ''example.org'', cr_batch = Some 51\<rparr>"

text \<open>A user who does not own the task of \<open>c9_world\<close>.\<close>

definition c1_requester :: "string option" where
  "c1_requester = Some ''mallory''"

text \<open>A generator of identifiers of eight characters that returns the decimal numerals of
  \<open>off + 1\<close>, \<open>off + 2\<close>, ..., and a runtime with it in which nothing throws.\<close>

definition digits3 :: "nat \<Rightarrow> string" where
  "digits3 k =
     [char_of (48 + k div 100 mod 10), char_of (48 + k div 10 mod 10), char_of (48 + k mod 10)]"

definition d_rt :: "nat \<Rightarrow> runtime" where
  "d_rt off =
     \<lparr>nanoid = (\<lambda>k. ''a0000'' @ digits3 (off + k)), clock = (\<lambda>c. 5000), throws = (\<lambda>p. None)\<rparr>"









text \<open>A request for 250 addresses, the task and the world that the create route makes of
  it, and the worlds after three calls of the process route with the example generator.\<close>

definition c6_req :: create_request where
  "c6_req =
     \<lparr>cr_userId = Some ''alice'', cr_isEmperor = False, cr_expiryTime = 3600000,
      cr_domain = ''example.org'', cr_batch = Some 250\<rparr>"

definition c6_task :: batch_task where
  "c6_task = new_task c5_rt ''alice'' c6_req"

definition c6_w0 :: world where
  "c6_w0 = snd (create_POST c5_rt c5_options c6_req c5_world)"

definition c6_w1 :: world where
  "c6_w1 = snd (process_POST (d_rt 0) (Some ''V1StGXR8_Z5jdHi6'') c6_w0)"

definition c6_w2 :: world where
  "c6_w2 = snd (process_POST (d_rt 100) (Some ''V1StGXR8_Z5jdHi6'') c6_w1)"

definition c6_w3 :: world where
  "c6_w3 = snd (process_POST (d_rt 200) (Some ''V1StGXR8_Z5jdHi6'') c6_w2)"

section \<open>Properties\<close>

declare generate_loop.simps [simp del]
declare insert_loop.simps [simp del]

subsection \<open>The generation loop\<close>

lemma generate_loop_stop:
  "\<not> (int (length l) < n \<and> int a < m) \<Longrightarrow>
   generate_loop rt tbl task now expires n m l S a = Inr (l, a)"
  by (subst generate_loop.simps) auto

lemma generate_loop_step:
  "int (length l) < n \<Longrightarrow> int a < m \<Longrightarrow>
   generate_loop rt tbl task now expires n m l S a =
     (if toLowerCase (candidate rt task (Suc a)) \<in> S then
        generate_loop rt tbl task now expires n m l S (Suc a)
      else
        (case throws rt (DbFindEmail (Suc a)) of
           Some e \<Rightarrow> Inl e
         | None \<Rightarrow>
             (case find_email_lower tbl (toLowerCase (candidate rt task (Suc a))) of
                Some existingEmail \<Rightarrow>
                  generate_loop rt tbl task now expires n m l
                    (insert (toLowerCase (candidate rt task (Suc a))) S) (Suc a)
              | None \<Rightarrow>
                  generate_loop rt tbl task now expires n m
                    (l @ [candidate_row rt task now expires (Suc a)])
                    (insert (toLowerCase (candidate rt task (Suc a))) S) (Suc a))))"
  by (subst generate_loop.simps)
     (simp add: candidate_def candidate_row_def split: option.splits)

text \<open>An invariant of the loop's variables holds when the loop returns.\<close>

lemma generate_loop_invariant:
  assumes run: "generate_loop rt tbl task now expires n m l S a = Inr (l', a')"
    and init: "P l S a"
    and dup: "\<And>l S a. P l S a \<Longrightarrow> int (length l) < n \<Longrightarrow> int a < m \<Longrightarrow>
                toLowerCase (candidate rt task (Suc a)) \<in> S \<Longrightarrow> P l S (Suc a)"
    and taken: "\<And>l S a x. P l S a \<Longrightarrow> int (length l) < n \<Longrightarrow> int a < m \<Longrightarrow>
                toLowerCase (candidate rt task (Suc a)) \<notin> S \<Longrightarrow>
                find_email_lower tbl (toLowerCase (candidate rt task (Suc a))) = Some x \<Longrightarrow>
                P l (insert (toLowerCase (candidate rt task (Suc a))) S) (Suc a)"
    and accept: "\<And>l S a. P l S a \<Longrightarrow> int (length l) < n \<Longrightarrow> int a < m \<Longrightarrow>
                toLowerCase (candidate rt task (Suc a)) \<notin> S \<Longrightarrow>
                find_email_lower tbl (toLowerCase (candidate rt task (Suc a))) = None \<Longrightarrow>
                P (l @ [candidate_row rt task now expires (Suc a)])
                  (insert (toLowerCase (candidate rt task (Suc a))) S) (Suc a)"
  shows "\<exists>S'. P l' S' a' \<and> \<not> (int (length l') < n \<and> int a' < m)"
  using run init
proof (induction "nat (m - int a)" arbitrary: l S a rule: less_induct)
  case less
  show ?case
  proof (cases "int (length l) < n \<and> int a < m")
    case False
    with less.prems show ?thesis by (auto simp: generate_loop_stop)
  next
    case True
    then have c1: "int (length l) < n" and c2: "int a < m" by simp_all
    have dec: "nat (m - int (Suc a)) < nat (m - int a)" using c2 by simp
    note step = generate_loop_step[OF c1 c2, of rt tbl task now expires S]
    let ?c = "toLowerCase (candidate rt task (Suc a))"
    show ?thesis
    proof (cases "?c \<in> S")
      case True
      with less.prems(1) step
      have "generate_loop rt tbl task now expires n m l S (Suc a) = Inr (l', a')" by simp
      from less.hyps[OF dec this dup[OF less.prems(2) c1 c2 True]] show ?thesis .
    next
      case fresh: False
      show ?thesis
      proof (cases "throws rt (DbFindEmail (Suc a))")
        case (Some e)
        with fresh less.prems(1) step show ?thesis by simp
      next
        case None
        show ?thesis
        proof (cases "find_email_lower tbl ?c")
          case nf: None
          with fresh None less.prems(1) step
          have r: "generate_loop rt tbl task now expires n m
                    (l @ [candidate_row rt task now expires (Suc a)])
                    (insert ?c S) (Suc a) = Inr (l', a')" by simp
          from less.hyps[OF dec r accept[OF less.prems(2) c1 c2 fresh nf]] show ?thesis .
        next
          case (Some ex)
          with fresh None less.prems(1) step
          have r: "generate_loop rt tbl task now expires n m l (insert ?c S) (Suc a) = Inr (l', a')"
            by simp
          from less.hyps[OF dec r taken[OF less.prems(2) c1 c2 fresh Some]] show ?thesis .
        qed
      qed
    qed
  qed
qed

lemma drawn_Suc:
  assumes "drawn rt task now expires a r"
  shows "drawn rt task now expires (Suc a) r"
proof -
  from assms obtain k where "1 \<le> k" "k \<le> a" "r = candidate_row rt task now expires k"
    unfolding drawn_def by blast
  then have "1 \<le> k \<and> k \<le> Suc a \<and> r = candidate_row rt task now expires k" by simp
  then show ?thesis unfolding drawn_def by blast
qed

lemma drawn_last: "drawn rt task now expires (Suc a) (candidate_row rt task now expires (Suc a))"
  unfolding drawn_def by (rule exI[of _ "Suc a"]) simp

lemma generate_loop_gen_inv:
  assumes run: "generate_loop rt tbl task now expires n m [] {} 0 = Inr (l, a)"
    and n: "0 \<le> n" and m: "0 \<le> m"
  shows "gen_inv rt tbl task now expires n m l (toLowerCase ` set (map email_address l) \<union> X) a
           \<and> \<not> (int (length l) < n \<and> int a < m)" (is "?G \<and> ?stop")
proof -
  have "\<exists>S'. gen_inv rt tbl task now expires n m l S' a \<and> \<not> (int (length l) < n \<and> int a < m)"
  proof (rule generate_loop_invariant[OF run])
    show "gen_inv rt tbl task now expires n m [] {} 0"
      using n m by (simp add: gen_inv_def)
  next
    fix l S a
    assume "gen_inv rt tbl task now expires n m l S a" "int (length l) < n" "int a < m"
    then show "gen_inv rt tbl task now expires n m l S (Suc a)"
      unfolding gen_inv_def by (auto intro: drawn_Suc)
  next
    fix l S a x
    assume "gen_inv rt tbl task now expires n m l S a" "int (length l) < n" "int a < m"
    then show "gen_inv rt tbl task now expires n m l
                 (insert (toLowerCase (candidate rt task (Suc a))) S) (Suc a)"
      unfolding gen_inv_def by (auto intro: drawn_Suc)
  next
    fix l S a
    assume g: "gen_inv rt tbl task now expires n m l S a" and c: "int (length l) < n" "int a < m"
      and fr: "toLowerCase (candidate rt task (Suc a)) \<notin> S"
      and nf: "find_email_lower tbl (toLowerCase (candidate rt task (Suc a))) = None"
    have addr: "email_address (candidate_row rt task now expires (Suc a)) = candidate rt task (Suc a)"
      by (simp add: candidate_row_def)
    have d: "distinct (map (\<lambda>r. toLowerCase (email_address r))
                (l @ [candidate_row rt task now expires (Suc a)]))"
      using g fr unfolding gen_inv_def by (auto simp: addr)
    have k: "\<forall>r \<in> set (l @ [candidate_row rt task now expires (Suc a)]).
               drawn rt task now expires (Suc a) r"
      using g unfolding gen_inv_def by (auto intro: drawn_Suc drawn_last)
    show "gen_inv rt tbl task now expires n m (l @ [candidate_row rt task now expires (Suc a)])
            (insert (toLowerCase (candidate rt task (Suc a))) S) (Suc a)"
      unfolding gen_inv_def
      using d k g c nf unfolding gen_inv_def by (auto simp: addr)
  qed
  then obtain S' where g: "gen_inv rt tbl task now expires n m l S' a" and s: ?stop by blast
  have "?G" using g unfolding gen_inv_def by auto
  with s show ?thesis by simp
qed



lemma find_email_lower_None:
  "find_email_lower tbl a = None \<longleftrightarrow> (\<forall>x \<in> set tbl. toLowerCase (email_address x) \<noteq> a)"
  by (auto simp: find_email_lower_def find_None_iff)

subsection \<open>The insert loop\<close>

lemma slice_batch: "slice i (i + INSERT_BATCH_SIZE) l = take INSERT_BATCH_SIZE (drop i l)"
  by (simp add: slice_def)

lemma insert_loop_result:
  "insert_loop rt l i tbl c ca = (tbl', res) \<Longrightarrow>
   (case res of
      Inr (c', ca') \<Rightarrow> tbl' = tbl @ drop i l \<and> c' = c + int (length (drop i l))
                       \<and> ca' = ca @ map email_address (drop i l)
    | Inl e \<Rightarrow> (\<exists>j. throws rt (DbInsertEmails j) = Some e) \<and> (\<exists>k. tbl' = tbl @ take k (drop i l)))"
proof (induction rt l i tbl c ca rule: insert_loop.induct)
  case (1 rt l i tbl c ca)
  show ?case
  proof (cases "i < length l")
    case False
    with "1.prems" show ?thesis by (auto simp: insert_loop.simps)
  next
    case True
    show ?thesis
    proof (cases "throws rt (DbInsertEmails i)")
      case (Some e)
      with True "1.prems" have "tbl' = tbl" "res = Inl e" by (simp_all add: insert_loop.simps)
      with Some show ?thesis by (auto intro: exI[of _ 0])
    next
      case None
      let ?b = "take INSERT_BATCH_SIZE (drop i l)"
      from True None "1.prems"
      have r: "insert_loop rt l (i + INSERT_BATCH_SIZE) (tbl @ slice i (i + INSERT_BATCH_SIZE) l)
                 (c + int (length (slice i (i + INSERT_BATCH_SIZE) l)))
                 (ca @ map email_address (slice i (i + INSERT_BATCH_SIZE) l)) = (tbl', res)"
        by (subst (asm) insert_loop.simps) simp
      note ih = "1.IH"[OF True None r]
      have split: "?b @ drop (i + INSERT_BATCH_SIZE) l = drop i l"
        by (metis add.commute append_take_drop_id drop_drop)
      show ?thesis
      proof (cases res)
        case (Inr p)
        obtain c' ca' where p: "p = (c', ca')" by (cases p)
        from ih Inr p have
          "tbl' = (tbl @ ?b) @ drop (i + INSERT_BATCH_SIZE) l"
          "c' = c + int (length ?b) + int (length (drop (i + INSERT_BATCH_SIZE) l))"
          "ca' = (ca @ map email_address ?b) @ map email_address (drop (i + INSERT_BATCH_SIZE) l)"
          by (simp_all add: slice_batch)
        moreover have "length ?b + length (drop (i + INSERT_BATCH_SIZE) l) = length (drop i l)"
          by (metis length_append split)
        moreover have "map email_address ?b @ map email_address (drop (i + INSERT_BATCH_SIZE) l)
                         = map email_address (drop i l)"
          by (metis map_append split)
        ultimately show ?thesis using Inr p split by (simp del: length_drop)
      next
        case (Inl e)
        with ih obtain k where j: "\<exists>j. throws rt (DbInsertEmails j) = Some e"
          and k: "tbl' = (tbl @ ?b) @ take k (drop (i + INSERT_BATCH_SIZE) l)"
          by (auto simp: slice_batch)
        have "\<And>b rest :: email_row list. b @ take k rest = take (length b + k) (b @ rest)"
          by simp
        then have "?b @ take k (drop (i + INSERT_BATCH_SIZE) l)
                = take (length ?b + k) (?b @ drop (i + INSERT_BATCH_SIZE) l)" .
        then have "tbl' = tbl @ take (length ?b + k) (drop i l)"
          unfolding k split by simp
        with j Inl show ?thesis by auto
      qed
    qed
  qed
qed

subsection \<open>One chunk\<close>

lemma process_chunk_unfold:
  "process_chunk rt tid task w =
     (case generated rt w task of
        Inl e \<Rightarrow> (w, Inl e)
      | Inr (emailDataList, attempts) \<Rightarrow>
          (case (if length emailDataList > 0
                 then insert_loop rt emailDataList 0 (emails w) 0 []
                 else (emails w, Inr (0, []))) of
             (tbl, Inl insertError) \<Rightarrow> (w\<lparr>emails := tbl\<rparr>, Inl (insert_error insertError))
           | (tbl, Inr (created, createdAddresses)) \<Rightarrow>
               persist_progress rt tid
                 (update_progress rt task (length emailDataList) created createdAddresses)
                 (w\<lparr>emails := tbl\<rparr>)))"
  unfolding process_chunk_def generated_def chunk_size_def expires_at_def Let_def
    persist_progress_def
  by (simp split: sum.splits prod.splits)

lemma save_completed_frame [simp]:
  "kv_tasks (save_completed rt tid t w) = kv_tasks w"
  "kv_log (save_completed rt tid t w) = kv_log w"
  "emails (save_completed rt tid t w) = emails w"
  by (simp_all add: save_completed_def split: option.splits)

lemma save_completed_batch:
  "batch_tasks (save_completed rt tid t (w\<lparr>emails := tbl\<rparr>)) = batch_tasks (save_completed rt tid t w)"
  by (simp add: save_completed_def split: option.splits)

lemma save_failed_frame [simp]:
  "kv_tasks (save_failed rt tid t w) = kv_tasks w"
  "kv_log (save_failed rt tid t w) = kv_log w"
  "emails (save_failed rt tid t w) = emails w"
  by (simp_all add: save_failed_def split: option.splits)

lemma kv_put_Inr:
  "kv_put rt p tid t w = Inr w' \<Longrightarrow>
   throws rt p = None \<and> w' = w\<lparr>kv_tasks := (kv_tasks w)(tid \<mapsto> t), kv_log := kv_log w @ [(tid, t)]\<rparr>"
  by (auto simp: kv_put_def split: option.splits)

lemma kv_put_Inl: "kv_put rt p tid t w = Inl e \<Longrightarrow> throws rt p = Some e"
  by (auto simp: kv_put_def split: option.splits)

lemma insert_phase:
  assumes "(if length l > 0 then insert_loop rt l 0 tbl 0 [] else (tbl, Inr (0, []))) = (tbl', res)"
  shows "case res of
           Inr (c', ca') \<Rightarrow> tbl' = tbl @ l \<and> c' = int (length l) \<and> ca' = map email_address l
         | Inl e \<Rightarrow> (\<exists>j. throws rt (DbInsertEmails j) = Some e) \<and> (\<exists>k. tbl' = tbl @ take k l)"
proof (cases "length l > 0")
  case True
  with assms have "insert_loop rt l 0 tbl 0 [] = (tbl', res)" by simp
  from insert_loop_result[OF this] show ?thesis by (auto split: sum.splits)
next
  case False
  with assms show ?thesis by auto
qed

lemma persist_progress_cases:
  assumes run: "persist_progress rt tid t w1 = (w', res)"
  shows "(\<exists>e. res = Inl e \<and> throws rt KvPutProgress = Some e \<and> kv_tasks w' = kv_tasks w1
              \<and> kv_log w' = kv_log w1 \<and> emails w' = emails w1) \<or>
         (res = Inr (progress_response t) \<and> throws rt KvPutProgress = None \<and>
          kv_tasks w' = (kv_tasks w1)(tid \<mapsto> t) \<and>
          kv_log w' = kv_log w1 @ [(tid, t)] \<and> emails w' = emails w1 \<and>
          batch_tasks w' = batch_tasks (if status t = Completed then save_completed rt tid t w1
                                        else w1))"
proof -
  let ?w2 = "if status t = Completed then save_completed rt tid t w1 else w1"
  have fr: "kv_tasks ?w2 = kv_tasks w1" "kv_log ?w2 = kv_log w1" "emails ?w2 = emails w1"
    by simp_all
  show ?thesis
  proof (cases "kv_put rt KvPutProgress tid t ?w2")
    case (Inl e)
    with run have "w' = ?w2" "res = Inl e" by (simp_all add: persist_progress_def)
    with fr kv_put_Inl[OF Inl] show ?thesis by simp
  next
    case (Inr w3)
    with run have w': "w' = w3" and res: "res = Inr (progress_response t)"
      by (simp_all add: persist_progress_def)
    from kv_put_Inr[OF Inr] have n: "throws rt KvPutProgress = None" and
      "w3 = ?w2\<lparr>kv_tasks := (kv_tasks ?w2)(tid \<mapsto> t), kv_log := kv_log ?w2 @ [(tid, t)]\<rparr>"
      by simp_all
    then have "kv_tasks w3 = (kv_tasks w1)(tid \<mapsto> t)" "kv_log w3 = kv_log w1 @ [(tid, t)]"
      "emails w3 = emails w1" "batch_tasks w3 = batch_tasks ?w2"
      using fr by simp_all
    with w' res n show ?thesis by simp
  qed
qed

lemma process_chunk_cases:
  assumes run: "process_chunk rt tid task w = (w', res)"
  shows "(\<exists>e. res = Inl e \<and> kv_tasks w' = kv_tasks w \<and> kv_log w' = kv_log w) \<or>
         (\<exists>l a. generated rt w task = Inr (l, a) \<and>
                 res = Inr (progress_response (advanced rt task l)) \<and>
                 kv_tasks w' = (kv_tasks w)(tid \<mapsto> advanced rt task l) \<and>
                 kv_log w' = kv_log w @ [(tid, advanced rt task l)] \<and>
                 emails w' = emails w @ l \<and>
                 batch_tasks w' = batch_tasks (if status (advanced rt task l) = Completed
                                               then save_completed rt tid (advanced rt task l) w
                                               else w))"
proof (cases "generated rt w task")
  case (Inl e)
  with run show ?thesis by (auto simp: process_chunk_unfold)
next
  case (Inr p)
  obtain l a where p: "p = (l, a)" by (cases p)
  obtain tbl ires where ins:
    "(if length l > 0 then insert_loop rt l 0 (emails w) 0 [] else (emails w, Inr (0, []))) = (tbl, ires)"
    by (cases "(if length l > 0 then insert_loop rt l 0 (emails w) 0 [] else (emails w, Inr (0, [])))")
  note ph = insert_phase[OF ins]
  show ?thesis
  proof (cases ires)
    case (Inl e)
    with run Inr p ins show ?thesis by (auto simp: process_chunk_unfold)
  next
    case ok: (Inr q)
    obtain c ca where q: "q = (c, ca)" by (cases q)
    from ph ok q have tbl: "tbl = emails w @ l" and c: "c = int (length l)"
      and ca: "ca = map email_address l" by simp_all
    let ?t = "advanced rt task l"
    have run': "persist_progress rt tid ?t (w\<lparr>emails := tbl\<rparr>) = (w', res)"
      using run Inr p ins ok q c ca
      by (simp add: process_chunk_unfold advanced_def)
    from persist_progress_cases[OF run'] tbl \<open>generated rt w task = Inr p\<close> p
    show ?thesis by (auto simp: save_completed_batch)
  qed
qed


subsection \<open>The updated task\<close>

lemma advanced_fields:
  "taskId (advanced rt task l) = taskId task"
  "userId (advanced rt task l) = userId task"
  "domain (advanced rt task l) = domain task"
  "totalCount (advanced rt task l) = totalCount task"
  "error (advanced rt task l) = error task"
  "createdAt (advanced rt task l) = createdAt task"
  "updatedAt (advanced rt task l) = clock rt AtProgress"
  "createdCount (advanced rt task l) = createdCount task + int (length l)"
  "address_list (advanced rt task l) = address_list task @ map email_address l"
  by (simp_all add: advanced_def update_progress_def Let_def address_list_def
        split: option.splits)

lemma advanced_processed:
  "processedCount task + int (length l) \<le> totalCount task \<Longrightarrow>
   processedCount (advanced rt task l) = processedCount task + int (length l)"
  by (simp add: advanced_def update_progress_def Let_def)

lemma advanced_status:
  "processedCount task + int (length l) \<le> totalCount task \<Longrightarrow>
   status (advanced rt task l) =
     (if processedCount task + int (length l) = totalCount task then Completed else status task)"
  by (simp add: advanced_def update_progress_def Let_def)




subsection \<open>The invariant of the stores\<close>

















lemma generated_bounds:
  assumes g: "generated rt w task = Inr (l, a)" and n: "0 \<le> chunk_size task"
  shows "int (length l) \<le> chunk_size task" and "int a \<le> 5 * chunk_size task"
    and "length l \<le> a"
    and "distinct (map (\<lambda>r. toLowerCase (email_address r)) l)"
    and "\<forall>r \<in> set l. \<forall>x \<in> set (emails w). toLowerCase (email_address x) \<noteq> toLowerCase (email_address r)"
    and "\<forall>r \<in> set l. drawn rt task (clock rt AtGenerate) (expires_at rt task) a r"
    and "int (length l) = chunk_size task \<or> int a = 5 * chunk_size task"
proof -
  have m: "0 \<le> chunk_size task * 5" using n by simp
  from generate_loop_gen_inv[OF g[unfolded generated_def] n m, of "{}"]
  have gi: "gen_inv rt (emails w) task (clock rt AtGenerate) (expires_at rt task)
              (chunk_size task) (chunk_size task * 5) l
              (toLowerCase ` set (map email_address l) \<union> {}) a"
    and stop: "\<not> (int (length l) < chunk_size task \<and> int a < chunk_size task * 5)"
    by simp_all
  from gi show "int (length l) \<le> chunk_size task" "int a \<le> 5 * chunk_size task"
    "length l \<le> a" "distinct (map (\<lambda>r. toLowerCase (email_address r)) l)"
    "\<forall>r \<in> set l. drawn rt task (clock rt AtGenerate) (expires_at rt task) a r"
    unfolding gen_inv_def by simp_all
  from gi show "\<forall>r \<in> set l. \<forall>x \<in> set (emails w).
      toLowerCase (email_address x) \<noteq> toLowerCase (email_address r)"
    unfolding gen_inv_def by (simp add: find_email_lower_None)
  from gi stop show "int (length l) = chunk_size task \<or> int a = 5 * chunk_size task"
    unfolding gen_inv_def by auto
qed







subsection \<open>The create route\<close>











subsection \<open>Calls without collision\<close>

lemma upt_Suc_snoc: "[1..<Suc (Suc j)] = [1..<Suc j] @ [Suc j]"
  by simp

lemma generate_loop_fresh:
  assumes d: "distinct (map (\<lambda>k. toLowerCase (candidate rt task k)) [1..<Suc n])"
    and f: "\<forall>k \<in> set [1..<Suc n]. find_email_lower tbl (toLowerCase (candidate rt task k)) = None"
    and nt: "\<forall>k. throws rt (DbFindEmail k) = None"
    and j: "j \<le> n"
  shows "generate_loop rt tbl task now expires (int n) (int n * 5)
           (map (candidate_row rt task now expires) [1..<Suc j])
           ((\<lambda>k. toLowerCase (candidate rt task k)) ` set [1..<Suc j]) j
         = Inr (map (candidate_row rt task now expires) [1..<Suc n], n)"
  using j
proof (induction "n - j" arbitrary: j)
  case 0
  then have "j = n" by simp
  then show ?case by (simp add: generate_loop_stop)
next
  case (Suc d')
  then have lt: "j < n" by simp
  have c1: "int (length (map (candidate_row rt task now expires) [1..<Suc j])) < int n"
    using lt by simp
  have c2: "int j < int n * 5" using lt by simp
  have notin: "toLowerCase (candidate rt task (Suc j))
                 \<notin> (\<lambda>k. toLowerCase (candidate rt task k)) ` set [1..<Suc j]"
  proof
    assume "toLowerCase (candidate rt task (Suc j))
              \<in> (\<lambda>k. toLowerCase (candidate rt task k)) ` set [1..<Suc j]"
    then obtain k where k: "1 \<le> k" "k \<le> j"
      "toLowerCase (candidate rt task k) = toLowerCase (candidate rt task (Suc j))" by auto
    have "inj_on (\<lambda>k. toLowerCase (candidate rt task k)) (set [1..<Suc n])"
      using d by (simp add: distinct_map)
    moreover have "k \<in> set [1..<Suc n]" "Suc j \<in> set [1..<Suc n]" using k lt by auto
    ultimately have "k = Suc j" using k(3) by (auto dest: inj_onD)
    with k(2) show False by simp
  qed
  have "Suc j \<in> set [1..<Suc n]" using lt by auto
  with f have nf: "find_email_lower tbl (toLowerCase (candidate rt task (Suc j))) = None"
    by blast
  have ih: "generate_loop rt tbl task now expires (int n) (int n * 5)
           (map (candidate_row rt task now expires) [1..<Suc (Suc j)])
           ((\<lambda>k. toLowerCase (candidate rt task k)) ` set [1..<Suc (Suc j)]) (Suc j)
         = Inr (map (candidate_row rt task now expires) [1..<Suc n], n)"
    using Suc.hyps(1)[of "Suc j"] Suc.hyps(2) lt by simp
  have l: "map (candidate_row rt task now expires) [1..<Suc (Suc j)]
             = map (candidate_row rt task now expires) [1..<Suc j]
               @ [candidate_row rt task now expires (Suc j)]"
    by (simp only: upt_Suc_snoc map_append list.map)
  have s: "(\<lambda>k. toLowerCase (candidate rt task k)) ` set [1..<Suc (Suc j)]
             = insert (toLowerCase (candidate rt task (Suc j)))
                 ((\<lambda>k. toLowerCase (candidate rt task k)) ` set [1..<Suc j])"
    by (simp only: upt_Suc_snoc set_append image_Un) auto
  show ?case
    unfolding generate_loop_step[OF c1 c2]
    using notin nf nt ih unfolding l s by simp
qed

lemma generated_fresh:
  assumes fr: "fresh_candidates rt w task" and nt: "\<forall>k. throws rt (DbFindEmail k) = None"
    and n: "0 \<le> chunk_size task"
  shows "generated rt w task =
           Inr (map (candidate_row rt task (clock rt AtGenerate) (expires_at rt task))
                  [1..<Suc (nat (chunk_size task))], nat (chunk_size task))"
proof -
  from fr have d: "distinct (map (\<lambda>k. toLowerCase (candidate rt task k))
                     [1..<Suc (nat (chunk_size task))])"
    and f: "\<forall>k \<in> set [1..<Suc (nat (chunk_size task))].
              find_email_lower (emails w) (toLowerCase (candidate rt task k)) = None"
    by (simp_all add: fresh_candidates_def list_all_iff)
  from generate_loop_fresh[OF d f nt, of 0 "clock rt AtGenerate" "expires_at rt task"] n
  show ?thesis by (simp add: generated_def)
qed


lemma process_chunk_persists:
  assumes g: "generated rt w task = Inr (l, a)"
    and nt: "\<forall>j. throws rt (DbInsertEmails j) = None" "throws rt KvPutProgress = None"
  shows "\<exists>w'. process_chunk rt tid task w = (w', Inr (progress_response (advanced rt task l)))
              \<and> emails w' = emails w @ l
              \<and> kv_tasks w' = (kv_tasks w)(tid \<mapsto> advanced rt task l)
              \<and> kv_log w' = kv_log w @ [(tid, advanced rt task l)]
              \<and> batch_tasks w' = batch_tasks (if status (advanced rt task l) = Completed
                                               then save_completed rt tid (advanced rt task l) w
                                               else w)"
proof -
  obtain w' res where run: "process_chunk rt tid task w = (w', res)"
    by (cases "process_chunk rt tid task w")
  have "res \<noteq> Inl e" for e
  proof
    assume r: "res = Inl e"
    obtain tbl ires where ins:
      "(if length l > 0 then insert_loop rt l 0 (emails w) 0 [] else (emails w, Inr (0, [])))
         = (tbl, ires)"
      by (cases "(if length l > 0 then insert_loop rt l 0 (emails w) 0 []
                  else (emails w, Inr (0, [])))")
    from insert_phase[OF ins] nt(1) obtain c ca where ires: "ires = Inr (c, ca)"
      by (cases ires) auto
    from run g ins ires
    have pp: "persist_progress rt tid (update_progress rt task (length l) c ca)
            (w\<lparr>emails := tbl\<rparr>) = (w', res)"
      by (simp add: process_chunk_unfold)
    from persist_progress_cases[OF pp] r nt(2) show False by auto
  qed
  with process_chunk_cases[OF run] g run show ?thesis by auto
qed

lemma chunk_rows_cong:
  "domain t' = domain t \<Longrightarrow> userId t' = userId t \<Longrightarrow> expiryTime t' = expiryTime t \<Longrightarrow>
   totalCount t' = totalCount t \<Longrightarrow> processedCount t' = processedCount t \<Longrightarrow>
   chunk_rows rt t' = chunk_rows rt t"
  by (simp add: chunk_rows_def candidate_row_def candidate_def expires_at_def chunk_size_def)

lemma fresh_candidates_cong:
  "domain t' = domain t \<Longrightarrow> totalCount t' = totalCount t \<Longrightarrow>
   processedCount t' = processedCount t \<Longrightarrow> emails w' = emails w \<Longrightarrow>
   fresh_candidates rt w' t' = fresh_candidates rt w t"
  by (simp add: fresh_candidates_def candidate_def chunk_size_def)

lemma clean_chunk:
  assumes nt: "\<forall>p. throws rt p = None" and fr: "fresh_candidates rt w task"
    and n: "0 \<le> chunk_size task"
  shows "\<exists>w'. process_chunk rt tid task w
                = (w', Inr (progress_response (advanced rt task (chunk_rows rt task))))
              \<and> emails w' = emails w @ chunk_rows rt task
              \<and> kv_tasks w' = (kv_tasks w)(tid \<mapsto> advanced rt task (chunk_rows rt task))
              \<and> kv_log w' = kv_log w @ [(tid, advanced rt task (chunk_rows rt task))]
              \<and> batch_tasks w' =
                    batch_tasks (if status (advanced rt task (chunk_rows rt task)) = Completed
                                 then save_completed rt tid
                                        (advanced rt task (chunk_rows rt task)) w
                                 else w)"
proof -
  from nt have a: "\<forall>k. throws rt (DbFindEmail k) = None"
    and b: "\<forall>j. throws rt (DbInsertEmails j) = None" and c: "throws rt KvPutProgress = None"
    by simp_all
  from generated_fresh[OF fr a n]
  have g: "generated rt w task = Inr (chunk_rows rt task, nat (chunk_size task))"
    by (simp add: chunk_rows_def)
  from process_chunk_persists[OF g b c] show ?thesis .
qed

lemma clean_call_processing:
  assumes cur: "kv_tasks w tid = Some task" and ne: "tid \<noteq> []"
    and st: "status task = Processing" and lt: "processedCount task < totalCount task"
    and cl: "clean_call rt tid w"
  shows "fst (process_POST rt (Some tid) w)
           = progress_response (advanced rt task (chunk_rows rt task)) \<and>
         emails (snd (process_POST rt (Some tid) w)) = emails w @ chunk_rows rt task \<and>
         kv_tasks (snd (process_POST rt (Some tid) w))
           = (kv_tasks w)(tid \<mapsto> advanced rt task (chunk_rows rt task)) \<and>
         kv_log (snd (process_POST rt (Some tid) w))
           = kv_log w @ [(tid, advanced rt task (chunk_rows rt task))] \<and>
         batch_tasks (snd (process_POST rt (Some tid) w))
           = batch_tasks (if status (advanced rt task (chunk_rows rt task)) = Completed
                          then save_completed rt tid (advanced rt task (chunk_rows rt task)) w
                          else w)"
proof -
  from cl cur have nt: "\<forall>p. throws rt p = None" and fr: "fresh_candidates rt w task"
    by (simp_all add: clean_call_def)
  from lt have n: "0 \<le> chunk_size task" by (simp add: chunk_size_def PROCESS_BATCH_SIZE_def)
  from clean_chunk[OF nt fr n, of tid] obtain w' where
    run: "process_chunk rt tid task w
            = (w', Inr (progress_response (advanced rt task (chunk_rows rt task))))"
    and p: "emails w' = emails w @ chunk_rows rt task"
      "kv_tasks w' = (kv_tasks w)(tid \<mapsto> advanced rt task (chunk_rows rt task))"
      "kv_log w' = kv_log w @ [(tid, advanced rt task (chunk_rows rt task))]"
      "batch_tasks w' =
         batch_tasks (if status (advanced rt task (chunk_rows rt task)) = Completed
                      then save_completed rt tid (advanced rt task (chunk_rows rt task)) w
                      else w)" by blast
  have "process_try rt (Some tid) w = process_chunk rt tid task w"
    using cur ne st lt nt by (simp add: process_try_def)
  with run p show ?thesis by (simp add: process_POST_def)
qed

lemma clean_call_pending:
  assumes cur: "kv_tasks w tid = Some task" and ne: "tid \<noteq> []"
    and st: "status task = Pending" and lt: "processedCount task < totalCount task"
    and cl: "clean_call rt tid w"
    and t0: "t0 = task\<lparr>status := Processing, updatedAt := clock rt AtMarkProcessing\<rparr>"
  shows "fst (process_POST rt (Some tid) w)
           = progress_response (advanced rt t0 (chunk_rows rt task)) \<and>
         emails (snd (process_POST rt (Some tid) w)) = emails w @ chunk_rows rt task \<and>
         kv_tasks (snd (process_POST rt (Some tid) w))
           = (kv_tasks w)(tid \<mapsto> advanced rt t0 (chunk_rows rt task)) \<and>
         kv_log (snd (process_POST rt (Some tid) w))
           = kv_log w @ [(tid, t0), (tid, advanced rt t0 (chunk_rows rt task))] \<and>
         batch_tasks (snd (process_POST rt (Some tid) w))
           = batch_tasks (if status (advanced rt t0 (chunk_rows rt task)) = Completed
                          then save_completed rt tid (advanced rt t0 (chunk_rows rt task)) w
                          else w)"
proof -
  from cl cur have nt: "\<forall>p. throws rt p = None" and fr: "fresh_candidates rt w task"
    by (simp_all add: clean_call_def)
  let ?w1 = "w\<lparr>kv_tasks := (kv_tasks w)(tid \<mapsto> t0), kv_log := kv_log w @ [(tid, t0)]\<rparr>"
  have put: "kv_put rt KvPutProcessing tid t0 w = Inr ?w1"
    using nt by (simp add: kv_put_def)
  have rows: "chunk_rows rt t0 = chunk_rows rt task"
    by (rule chunk_rows_cong) (simp_all add: t0)
  have fr0: "fresh_candidates rt ?w1 t0"
    using fr fresh_candidates_cong[of t0 task ?w1 w rt] by (simp add: t0)
  from lt have n: "0 \<le> chunk_size t0"
    by (simp add: chunk_size_def PROCESS_BATCH_SIZE_def t0)
  from clean_chunk[OF nt fr0 n, of tid] rows obtain w' where
    run: "process_chunk rt tid t0 ?w1
            = (w', Inr (progress_response (advanced rt t0 (chunk_rows rt task))))"
    and p: "emails w' = emails ?w1 @ chunk_rows rt task"
      "kv_tasks w' = (kv_tasks ?w1)(tid \<mapsto> advanced rt t0 (chunk_rows rt task))"
      "kv_log w' = kv_log ?w1 @ [(tid, advanced rt t0 (chunk_rows rt task))]"
      "batch_tasks w' =
         batch_tasks (if status (advanced rt t0 (chunk_rows rt task)) = Completed
                      then save_completed rt tid (advanced rt t0 (chunk_rows rt task)) ?w1
                      else ?w1)" by auto
  have bt: "batch_tasks (save_completed rt tid t ?w1) = batch_tasks (save_completed rt tid t w)"
    for t by (simp add: save_completed_def split: option.splits)
  have "process_try rt (Some tid) w = process_chunk rt tid t0 ?w1"
    using cur ne st nt put by (simp add: process_try_def t0)
  with run p bt show ?thesis by (simp add: process_POST_def)
qed

subsection \<open>The example generator\<close>

lemma of_char_digit: "d < 10 \<Longrightarrow> of_char (char_of (48 + d :: nat)) = 48 + d"
  by (simp add: of_char_of)

lemma digit_char_lower: "d < 10 \<Longrightarrow> lower_char (char_of (48 + d :: nat)) = char_of (48 + d)"
  by (simp add: lower_char_def of_char_digit)

lemma digit_char_inj:
  assumes "a < 10" "b < 10" "(char_of (48 + a :: nat) :: char) = char_of (48 + b)"
  shows "a = b"
proof -
  from assms(3) have "(of_char (char_of (48 + a) :: char) :: nat) = of_char (char_of (48 + b) :: char)"
    by simp
  with assms(1,2) show ?thesis by (simp add: of_char_digit)
qed

lemma toLowerCase_digits3: "toLowerCase (digits3 k) = digits3 k"
  by (simp add: toLowerCase_def digits3_def digit_char_lower)

lemma decimal3:
  assumes a: "(x::nat) < 1000"
  shows "100 * (x div 100 mod 10) + 10 * (x div 10 mod 10) + x mod 10 = x"
proof -
  have 1: "x div 100 mod 10 = x div 100" using a by simp
  have 4: "x div 10 mod 10 = x mod 100 div 10" using mod_mult2_eq[of x 10 10] by simp
  have 5: "x mod 10 = x mod 100 mod 10" by (simp add: mod_mod_cancel)
  have "100 * (x div 100 mod 10) + 10 * (x div 10 mod 10) + x mod 10
          = 100 * (x div 100) + (10 * (x mod 100 div 10) + x mod 100 mod 10)"
    by (simp only: 1 4 5 add.assoc)
  also have "\<dots> = 100 * (x div 100) + x mod 100" by (simp only: mult_div_mod_eq)
  also have "\<dots> = x" by (simp only: mult_div_mod_eq)
  finally show ?thesis .
qed

lemma digits3_inj:
  assumes "x < 1000" "y < 1000" "digits3 x = digits3 y"
  shows "x = y"
proof -
  from assms(3) have c:
    "(char_of (48 + x div 100 mod 10) :: char) = char_of (48 + y div 100 mod 10)"
    "(char_of (48 + x div 10 mod 10) :: char) = char_of (48 + y div 10 mod 10)"
    "(char_of (48 + x mod 10) :: char) = char_of (48 + y mod 10)"
    by (simp_all add: digits3_def)
  have 1: "x div 100 mod 10 = y div 100 mod 10" by (rule digit_char_inj[OF _ _ c(1)]) simp_all
  have 2: "x div 10 mod 10 = y div 10 mod 10" by (rule digit_char_inj[OF _ _ c(2)]) simp_all
  have 3: "x mod 10 = y mod 10" by (rule digit_char_inj[OF _ _ c(3)]) simp_all
  have "x = 100 * (x div 100 mod 10) + 10 * (x div 10 mod 10) + x mod 10"
    by (simp only: decimal3[OF assms(1)])
  also have "\<dots> = 100 * (y div 100 mod 10) + 10 * (y div 10 mod 10) + y mod 10"
    by (simp only: 1 2 3)
  also have "\<dots> = y" by (rule decimal3[OF assms(2)])
  finally show ?thesis .
qed

lemma toLowerCase_append: "toLowerCase (a @ b) = toLowerCase a @ toLowerCase b"
  by (simp add: toLowerCase_def)

lemma d_candidate_lower:
  "toLowerCase (candidate (d_rt off) task k)
     = ''a0000'' @ digits3 (off + k) @ toLowerCase (''@'' @ domain task)"
proof -
  have "toLowerCase ''a0000'' = ''a0000''" by (simp add: toLowerCase_def lower_char_def)
  then show ?thesis
    by (simp only: candidate_def d_rt_def runtime.simps toLowerCase_append toLowerCase_digits3
          append_assoc)
qed

lemma d_candidate_inj:
  assumes "a + i < 1000" "b + j < 1000" "domain t' = domain t"
    and "toLowerCase (candidate (d_rt a) t i) = toLowerCase (candidate (d_rt b) t' j)"
  shows "a + i = b + j"
proof -
  from assms(4) have "digits3 (a + i) @ toLowerCase (''@'' @ domain t)
                        = digits3 (b + j) @ toLowerCase (''@'' @ domain t)"
    by (simp only: d_candidate_lower assms(3) same_append_eq)
  then have "digits3 (a + i) = digits3 (b + j)" by simp
  with assms(1,2) show ?thesis by (rule digits3_inj)
qed

lemma d_candidates_distinct:
  assumes "off + n < 1000"
  shows "distinct (map (\<lambda>k. toLowerCase (candidate (d_rt off) task k)) [1..<Suc n])"
proof -
  have "inj_on (\<lambda>k. toLowerCase (candidate (d_rt off) task k)) (set [1..<Suc n])"
  proof (rule inj_onI)
    fix i j assume i: "i \<in> set [1..<Suc n]" and j: "j \<in> set [1..<Suc n]"
      and e: "toLowerCase (candidate (d_rt off) task i) = toLowerCase (candidate (d_rt off) task j)"
    from i j assms have "off + i < 1000" "off + j < 1000" by auto
    from d_candidate_inj[OF this refl e] show "i = j" by simp
  qed
  then show ?thesis by (simp add: distinct_map)
qed

subsection \<open>The budget of the generator\<close>






subsection \<open>Calls that find a terminal task\<close>




subsection \<open>Calls that accept nothing\<close>

lemma process_try_processing:
  "kv_tasks w tid = Some task \<Longrightarrow> tid \<noteq> [] \<Longrightarrow> throws rt KvGetTask = None \<Longrightarrow>
   status task = Processing \<Longrightarrow> processedCount task < totalCount task \<Longrightarrow>
   process_try rt (Some tid) w = process_chunk rt tid task w"
  by (simp add: process_try_def)

lemma advanced_Nil:
  "processedCount task < totalCount task \<Longrightarrow>
   advanced rt task [] = task\<lparr>updatedAt := clock rt AtProgress\<rparr>"
  by (simp add: advanced_def update_progress_def Let_def)

lemma zero_accepted_step:
  assumes cur: "kv_tasks w tid = Some task" and ne: "tid \<noteq> []"
    and st: "status task = Processing" and lt: "processedCount task < totalCount task"
    and g: "generated rt w task = Inr ([], a)"
    and nt: "throws rt KvGetTask = None" "throws rt KvPutProgress = None"
  shows "process_POST rt (Some tid) w =
           (progress_response (task\<lparr>updatedAt := clock rt AtProgress\<rparr>),
            w\<lparr>kv_tasks := (kv_tasks w)(tid \<mapsto> task\<lparr>updatedAt := clock rt AtProgress\<rparr>),
              kv_log := kv_log w @ [(tid, task\<lparr>updatedAt := clock rt AtProgress\<rparr>)]\<rparr>)"
proof -
  have "process_chunk rt tid task w =
          persist_progress rt tid (task\<lparr>updatedAt := clock rt AtProgress\<rparr>) w"
    using g advanced_Nil[OF lt, of rt]
    by (simp add: process_chunk_unfold advanced_def)
  also have "\<dots> = (w\<lparr>kv_tasks := (kv_tasks w)(tid \<mapsto> task\<lparr>updatedAt := clock rt AtProgress\<rparr>),
              kv_log := kv_log w @ [(tid, task\<lparr>updatedAt := clock rt AtProgress\<rparr>)]\<rparr>,
              Inr (progress_response (task\<lparr>updatedAt := clock rt AtProgress\<rparr>)))"
    using st nt(2) by (simp add: persist_progress_def kv_put_def)
  finally show ?thesis
    using process_try_processing[OF cur ne nt(1) st lt] by (simp add: process_POST_def)
qed

lemma zero_accepted_all_stays:
  "kv_tasks w tid = Some task \<Longrightarrow> tid \<noteq> [] \<Longrightarrow> status task = Processing \<Longrightarrow>
   processedCount task < totalCount task \<Longrightarrow> zero_accepted_all rts tid w \<Longrightarrow>
   (\<exists>t. kv_tasks (advance_all rts tid w) tid = Some t \<and> status t = Processing \<and>
        processedCount t = processedCount task \<and> createdCount t = createdCount task \<and>
        totalCount t = totalCount task \<and> emailList t = emailList task) \<and>
   emails (advance_all rts tid w) = emails w"
proof (induction rts arbitrary: w task)
  case Nil
  then show ?case by simp
next
  case (Cons rt rts)
  from Cons.prems(5) Cons.prems(1) obtain a where
    g: "generated rt w task = Inr ([], a)"
    and nt: "throws rt KvGetTask = None" "throws rt KvPutProgress = None"
    and rest: "zero_accepted_all rts tid (snd (process_POST rt (Some tid) w))"
    by (auto split: sum.splits)
  let ?t = "task\<lparr>updatedAt := clock rt AtProgress\<rparr>"
  let ?w = "snd (process_POST rt (Some tid) w)"
  note step = zero_accepted_step[OF Cons.prems(1-4) g nt]
  have cur': "kv_tasks ?w tid = Some ?t" and em: "emails ?w = emails w"
    by (simp_all add: step)
  from Cons.IH[OF cur' Cons.prems(2) _ _ rest] Cons.prems(3,4) em
  show ?case by simp
qed

text \<open>
  C10. A call of advance on a task in status processing (with work left) that accepts no
  candidate, and whose storage operations do not throw, has used its whole budget of
  \<open>5 \<times>\<close> chunk size attempts, answers 200 with \<open>hasMore = true\<close>, and writes the task back
  with nothing but \<open>updatedAt\<close> changed: status, both counters and the address list stay.
  Nothing is inserted and no failure is raised. After any number of such calls the task is
  still in status processing with the same counters, so it reaches no terminal status.
\<close>

theorem zero_accepted_chunk:
  assumes cur: "kv_tasks w tid = Some task" and ne: "tid \<noteq> []"
    and st: "status task = Processing" and lt: "processedCount task < totalCount task"
    and z: "zero_accepted_all (rt # rts) tid w"
  shows "(\<exists>a. generated rt w task = Inr ([], a) \<and> int a = 5 * chunk_size task) \<and>
         process_POST rt (Some tid) w =
           (ProgressJson
              \<lparr>pb_status = Processing, pb_error = None, pb_processed = processedCount task,
               pb_total = totalCount task, pb_created = createdCount task,
               pb_progress = progress_of (processedCount task) (totalCount task),
               pb_message = None, pb_hasMore = Some True\<rparr>,
            w\<lparr>kv_tasks := (kv_tasks w)(tid \<mapsto> task\<lparr>updatedAt := clock rt AtProgress\<rparr>),
              kv_log := kv_log w @ [(tid, task\<lparr>updatedAt := clock rt AtProgress\<rparr>)]\<rparr>) \<and>
         (\<exists>t. kv_tasks (advance_all (rt # rts) tid w) tid = Some t \<and> status t = Processing \<and>
              processedCount t = processedCount task \<and> createdCount t = createdCount task \<and>
              totalCount t = totalCount task \<and> emailList t = emailList task) \<and>
         emails (advance_all (rt # rts) tid w) = emails w"
proof -
  from z cur obtain a where g: "generated rt w task = Inr ([], a)"
    and nt: "throws rt KvGetTask = None" "throws rt KvPutProgress = None"
    by (auto split: sum.splits)
  from st lt have n: "0 \<le> chunk_size task" "chunk_size task \<noteq> 0"
    by (simp_all add: chunk_size_def PROCESS_BATCH_SIZE_def)
  from generated_bounds(7)[OF g n(1)] n(2) have a: "int a = 5 * chunk_size task" by simp
  from zero_accepted_step[OF cur ne st lt g nt] st lt
  have step: "process_POST rt (Some tid) w =
           (ProgressJson
              \<lparr>pb_status = Processing, pb_error = None, pb_processed = processedCount task,
               pb_total = totalCount task, pb_created = createdCount task,
               pb_progress = progress_of (processedCount task) (totalCount task),
               pb_message = None, pb_hasMore = Some True\<rparr>,
            w\<lparr>kv_tasks := (kv_tasks w)(tid \<mapsto> task\<lparr>updatedAt := clock rt AtProgress\<rparr>),
              kv_log := kv_log w @ [(tid, task\<lparr>updatedAt := clock rt AtProgress\<rparr>)]\<rparr>)"
    by (simp add: progress_response_def)
  from zero_accepted_all_stays[OF cur ne st lt z] g a step show ?thesis by blast
qed

theorem zero_accepted_chunk_witness:
  "zero_accepted_all [c9_rt, c9_rt, c9_rt] ''t001'' c10_world \<and>
   generated c9_rt c10_world c9_task = Inr ([], 10) \<and>
   fst (process_POST c9_rt (Some ''t001'') c10_world) =
     ProgressJson \<lparr>pb_status = Processing, pb_error = None, pb_processed = 58, pb_total = 60,
                   pb_created = 58, pb_progress = Some 97, pb_message = None,
                   pb_hasMore = Some True\<rparr> \<and>
   (\<exists>t. kv_tasks (advance_all [c9_rt, c9_rt, c9_rt] ''t001'' c10_world) ''t001'' = Some t \<and>
        status t = Processing \<and> processedCount t = 58 \<and> createdCount t = 58) \<and>
   emails (advance_all [c9_rt, c9_rt, c9_rt] ''t001'' c10_world) = emails c10_world"
proof -
  have cur: "kv_tasks c10_world ''t001'' = Some c9_task" by (simp add: c10_world_def)
  have st: "status c9_task = Processing" "processedCount c9_task < totalCount c9_task"
    by (simp_all add: c9_task_def)
  have z: "zero_accepted_all [c9_rt, c9_rt, c9_rt] ''t001'' c10_world" by code_simp
  have g: "generated c9_rt c10_world c9_task = Inr ([], 10)" by code_simp
  have v: "processedCount c9_task = 58" "totalCount c9_task = 60" "createdCount c9_task = 58"
    "progress_of 58 60 = Some 97"
    by (simp_all add: c9_task_def progress_of_def)
  from zero_accepted_chunk[OF cur _ st z] z g v show ?thesis by auto
qed


subsection \<open>Calls that fail\<close>

lemma generate_loop_Inl:
  "generate_loop rt tbl task now expires n m l S a = Inl e \<Longrightarrow>
   \<exists>k. throws rt (DbFindEmail k) = Some e"
proof (induction "nat (m - int a)" arbitrary: l S a rule: less_induct)
  case less
  show ?case
  proof (cases "int (length l) < n \<and> int a < m")
    case False
    with less.prems show ?thesis by (simp add: generate_loop_stop)
  next
    case True
    then have c1: "int (length l) < n" and c2: "int a < m" by simp_all
    have dec: "nat (m - int (Suc a)) < nat (m - int a)" using c2 by simp
    from less.prems less.hyps[OF dec] show ?thesis
      unfolding generate_loop_step[OF c1 c2]
      by (auto split: if_splits option.splits)
  qed
qed

lemma process_chunk_Inl:
  assumes run: "process_chunk rt tid task w = (w1, Inl e)"
  shows "(\<exists>k. throws rt (DbFindEmail k) = Some e) \<or>
         (\<exists>j x. throws rt (DbInsertEmails j) = Some x \<and> e = insert_error x) \<or>
         throws rt KvPutProgress = Some e"
proof (cases "generated rt w task")
  case (Inl x)
  with run have "x = e" by (simp add: process_chunk_unfold)
  with Inl generate_loop_Inl[of rt "emails w" task _ _ _ _ "[]" "{}" 0 e] show ?thesis
    by (simp add: generated_def)
next
  case (Inr p)
  obtain l a where p: "p = (l, a)" by (cases p)
  obtain tbl ires where ins:
    "(if length l > 0 then insert_loop rt l 0 (emails w) 0 [] else (emails w, Inr (0, []))) = (tbl, ires)"
    by (cases "(if length l > 0 then insert_loop rt l 0 (emails w) 0 [] else (emails w, Inr (0, [])))")
  note ph = insert_phase[OF ins]
  show ?thesis
  proof (cases ires)
    case (Inl x)
    with run Inr p ins have "e = insert_error x" by (simp add: process_chunk_unfold)
    with ph Inl show ?thesis by auto
  next
    case ok: (Inr q)
    obtain c ca where q: "q = (c, ca)" by (cases q)
    from run Inr p ins ok q
    have "persist_progress rt tid (update_progress rt task (length l) c ca) (w\<lparr>emails := tbl\<rparr>)
            = (w1, Inl e)"
      by (simp add: process_chunk_unfold)
    from persist_progress_cases[OF this] show ?thesis by auto
  qed
qed

lemma process_try_Inl:
  assumes run: "process_try rt (Some tid) w = (w1, Inl e)"
  shows "tid \<noteq> [] \<and>
         (throws rt KvGetTask = Some e \<or> throws rt KvPutProcessing = Some e \<or>
          (\<exists>k. throws rt (DbFindEmail k) = Some e) \<or>
          (\<exists>j x. throws rt (DbInsertEmails j) = Some x \<and> e = insert_error x) \<or>
          throws rt KvPutProgress = Some e)"
proof -
  from run have ne: "tid \<noteq> []" by (auto simp: process_try_def split: if_splits)
  show ?thesis
  proof (cases "throws rt KvGetTask")
    case (Some x)
    with run ne show ?thesis by (simp add: process_try_def)
  next
    case None
    show ?thesis
    proof (cases "kv_tasks w tid")
      case nf: None
      with run ne None show ?thesis by (simp add: process_try_def)
    next
      case (Some task)
      let ?t = "task\<lparr>status := Processing, updatedAt := clock rt AtMarkProcessing\<rparr>"
      show ?thesis
      proof (cases "status task")
        case Completed
        with run ne None Some show ?thesis by (simp add: process_try_def)
      next
        case Failed
        with run ne None Some show ?thesis by (simp add: process_try_def)
      next
        case Processing
        with run ne None Some have "process_chunk rt tid task w = (w1, Inl e)"
          by (simp add: process_try_def split: if_splits)
        from process_chunk_Inl[OF this] ne show ?thesis by blast
      next
        case Pending
        show ?thesis
        proof (cases "kv_put rt KvPutProcessing tid ?t w")
          case (Inl x)
          with run ne None Some Pending have "x = e" by (simp add: process_try_def)
          with kv_put_Inl[OF Inl] ne show ?thesis by simp
        next
          case (Inr w')
          with run ne None Some Pending have "process_chunk rt tid ?t w' = (w1, Inl e)"
            by (simp add: process_try_def)
          from process_chunk_Inl[OF this] ne show ?thesis by blast
        qed
      qed
    qed
  qed
qed

text \<open>
  C7. When the \<^verbatim>\<open>try\<close> block of advance ends with a thrown value \<open>e\<close>, that value was
  thrown by a storage operation of the call (for an insert, wrapped into the insert-failure
  message), and the call answers 500. The failure handler reads the task again and, if it
  is there, writes it to the key-value store with status failed and the message of \<open>e\<close>,
  and then upserts the failed row of the history table, with the same message. Both writes
  are best-effort: if the second read or the write of the task throws, nothing changes and
  the answer is still 500; if the upsert of the row throws, the write of the task stays and
  the table is unchanged.
\<close>

theorem failure_is_recorded:
  assumes run: "process_try rt (Some tid) w = (w1, Inl e)"
  shows "(throws rt KvGetTask = Some e \<or> throws rt KvPutProcessing = Some e \<or>
          (\<exists>k. throws rt (DbFindEmail k) = Some e) \<or>
          (\<exists>j x. throws rt (DbInsertEmails j) = Some x \<and> e = insert_error x) \<or>
          throws rt KvPutProgress = Some e) \<and>
         fst (process_POST rt (Some tid) w) = ErrorJson 500 msg_process_batch_failed \<and>
         (throws rt KvGetOnFailure = None \<and> throws rt KvPutFailed = None \<longrightarrow>
            (\<forall>t. kv_tasks w1 tid = Some t \<longrightarrow>
               kv_tasks (snd (process_POST rt (Some tid) w)) tid =
                 Some (t\<lparr>status := Failed,
                         error := Some (case e of JsError m \<Rightarrow> m
                                        | JsThrown \<Rightarrow> msg_processing_failed),
                         updatedAt := clock rt AtFailed\<rparr>) \<and>
               (throws rt DbSaveFailed = None \<longrightarrow>
                  (\<exists>row. batch_tasks (snd (process_POST rt (Some tid) w)) tid = Some row \<and>
                     row_status row = Failed \<and>
                     row_error row = Some (case e of JsError m \<Rightarrow> m
                                           | JsThrown \<Rightarrow> msg_processing_failed) \<and>
                     row_createdCount row = createdCount t \<and>
                     row_completedAt row = Some (clock rt AtFailedRow))) \<and>
               (throws rt DbSaveFailed \<noteq> None \<longrightarrow>
                  batch_tasks (snd (process_POST rt (Some tid) w)) = batch_tasks w1))) \<and>
         (throws rt KvGetOnFailure \<noteq> None \<or> throws rt KvPutFailed \<noteq> None \<longrightarrow>
            snd (process_POST rt (Some tid) w) = w1)"
proof -
  from process_try_Inl[OF run] have ne: "tid \<noteq> []" and src:
    "throws rt KvGetTask = Some e \<or> throws rt KvPutProcessing = Some e \<or>
          (\<exists>k. throws rt (DbFindEmail k) = Some e) \<or>
          (\<exists>j x. throws rt (DbInsertEmails j) = Some x \<and> e = insert_error x) \<or>
          throws rt KvPutProgress = Some e" by simp_all
  have post: "process_POST rt (Some tid) w =
                (ErrorJson 500 msg_process_batch_failed, process_catch rt (Some tid) e w1)"
    using run by (simp add: process_POST_def)
  have r: "fst (process_POST rt (Some tid) w) = ErrorJson 500 msg_process_batch_failed"
    by (simp add: post)
  have ok: "throws rt KvGetOnFailure = None \<and> throws rt KvPutFailed = None \<longrightarrow>
            (\<forall>t. kv_tasks w1 tid = Some t \<longrightarrow>
               kv_tasks (snd (process_POST rt (Some tid) w)) tid =
                 Some (t\<lparr>status := Failed,
                         error := Some (case e of JsError m \<Rightarrow> m
                                        | JsThrown \<Rightarrow> msg_processing_failed),
                         updatedAt := clock rt AtFailed\<rparr>) \<and>
               (throws rt DbSaveFailed = None \<longrightarrow>
                  (\<exists>row. batch_tasks (snd (process_POST rt (Some tid) w)) tid = Some row \<and>
                     row_status row = Failed \<and>
                     row_error row = Some (case e of JsError m \<Rightarrow> m
                                           | JsThrown \<Rightarrow> msg_processing_failed) \<and>
                     row_createdCount row = createdCount t \<and>
                     row_completedAt row = Some (clock rt AtFailedRow))) \<and>
               (throws rt DbSaveFailed \<noteq> None \<longrightarrow>
                  batch_tasks (snd (process_POST rt (Some tid) w)) = batch_tasks w1))"
    using ne
    by (auto simp: post process_catch_def kv_put_def mark_failed_def save_failed_def
             split: option.splits)
  have ko: "throws rt KvGetOnFailure \<noteq> None \<or> throws rt KvPutFailed \<noteq> None \<longrightarrow>
            snd (process_POST rt (Some tid) w) = w1"
    using ne by (auto simp: post process_catch_def kv_put_def split: option.splits)
  from src r ok ko show ?thesis by blast
qed

theorem failure_is_recorded_witness:
  "snd (process_try c7_rt (Some ''t001'') c9_world)
     = Inl (JsError (msg_insert_failed_prefix @ ''D1_ERROR'')) \<and>
   fst (process_POST c7_rt (Some ''t001'') c9_world) = ErrorJson 500 msg_process_batch_failed \<and>
   kv_tasks (snd (process_POST c7_rt (Some ''t001'') c9_world)) ''t001'' =
     Some (c9_task\<lparr>status := Failed,
                   error := Some (msg_insert_failed_prefix @ ''D1_ERROR''),
                   updatedAt := 5000\<rparr>) \<and>
   (\<exists>row. batch_tasks (snd (process_POST c7_rt (Some ''t001'') c9_world)) ''t001'' = Some row \<and>
      row_status row = Failed \<and> row_createdCount row = 58 \<and>
      row_error row = Some (msg_insert_failed_prefix @ ''D1_ERROR''))"
proof -
  have e: "snd (process_try c7_rt (Some ''t001'') c9_world)
             = Inl (JsError (msg_insert_failed_prefix @ ''D1_ERROR''))"
    by code_simp
  then have run: "process_try c7_rt (Some ''t001'') c9_world
      = (fst (process_try c7_rt (Some ''t001'') c9_world),
         Inl (JsError (msg_insert_failed_prefix @ ''D1_ERROR'')))"
    by (metis prod.collapse)
  have kv: "kv_tasks (fst (process_try c7_rt (Some ''t001'') c9_world)) ''t001'' = Some c9_task"
    by code_simp
  have nt: "throws c7_rt KvGetOnFailure = None \<and> throws c7_rt KvPutFailed = None"
    "throws c7_rt DbSaveFailed = None" "clock c7_rt AtFailed = 5000"
    "createdCount c9_task = 58"
    by (simp_all add: c7_rt_def c9_task_def)
  from failure_is_recorded[OF run] e kv nt show ?thesis by auto
qed


subsection \<open>Creating a task\<close>

lemma create_try_unfold:
  "create_try rt opts uid req w =
     (case throws rt ReadBody of
        Some e \<Rightarrow> (w, Inl e)
      | None \<Rightarrow>
          if cr_expiryTime req \<notin> set opts then (w, Inr (ErrorJson 400 msg_invalid_expiry))
          else
            (case throws rt KvGetDomains of
               Some e \<Rightarrow> (w, Inl e)
             | None \<Rightarrow>
                 if cr_domain req \<notin> set (allowed_domains w) then
                   (w, Inr (ErrorJson 400 msg_invalid_domain))
                 else
                   (case (if cr_isEmperor req then Inr None
                          else
                            (case throws rt DbCountActive of
                               Some e \<Rightarrow> Inl e
                             | None \<Rightarrow>
                                 (case max_emails w of
                                    None \<Rightarrow> Inr None
                                  | Some maxCount \<Rightarrow>
                                      if active_count rt uid w + batch_count req > maxCount then
                                        Inr (Some (QuotaJson (active_count rt uid w) maxCount
                                                     (batch_count req)))
                                      else Inr None))) of
                      Inl e \<Rightarrow> (w, Inl e)
                    | Inr (Some rejection) \<Rightarrow> (w, Inr rejection)
                    | Inr None \<Rightarrow>
                        if batch_count req > ASYNC_THRESHOLD then
                          (case kv_put rt KvPutTask (nanoid rt 1) (new_task rt uid req) w of
                             Inl e \<Rightarrow> (w, Inl e)
                           | Inr w' \<Rightarrow>
                               (w', Inr (CreatedJson (nanoid rt 1) Pending msg_batch_started)))
                        else (w, Inr (ErrorJson 400 msg_use_generate)))))"
  unfolding create_try_def Let_def batch_count_def allowed_domains_def active_count_def
    new_task_def
  by (rule refl)

lemma create_try_valid:
  assumes v: "valid_request rt opts uid req w" and nt: "\<forall>p. throws rt p = None"
  shows "create_try rt opts uid req w =
           (if ASYNC_THRESHOLD < batch_count req then
              (w\<lparr>kv_tasks := (kv_tasks w)(nanoid rt 1 \<mapsto> new_task rt uid req),
                 kv_log := kv_log w @ [(nanoid rt 1, new_task rt uid req)]\<rparr>,
               Inr (CreatedJson (nanoid rt 1) Pending msg_batch_started))
            else (w, Inr (ErrorJson 400 msg_use_generate)))"
proof -
  from v have ex: "cr_expiryTime req \<in> set opts" and dom: "cr_domain req \<in> set (allowed_domains w)"
    and quota: "cr_isEmperor req \<or>
      (case max_emails w of None \<Rightarrow> True
       | Some maxCount \<Rightarrow> active_count rt uid w + batch_count req \<le> maxCount)"
    by (simp_all add: valid_request_def)
  have q: "(if cr_isEmperor req then Inr None
            else
              (case throws rt DbCountActive of
                 Some e \<Rightarrow> Inl e
               | None \<Rightarrow>
                   (case max_emails w of
                      None \<Rightarrow> Inr None
                    | Some maxCount \<Rightarrow>
                        if active_count rt uid w + batch_count req > maxCount then
                          Inr (Some (QuotaJson (active_count rt uid w) maxCount (batch_count req)))
                        else Inr None))) = (Inr None :: js_exn + response option)"
    using quota nt by (auto split: option.splits)
  show ?thesis
    unfolding create_try_unfold q
    using ex dom nt by (simp add: kv_put_def)
qed

lemma create_POST_valid:
  assumes v: "valid_request rt opts uid req w" and nt: "\<forall>p. throws rt p = None"
  shows "create_POST rt opts req w =
           (if ASYNC_THRESHOLD < batch_count req then
              (CreatedJson (nanoid rt 1) Pending msg_batch_started,
               w\<lparr>kv_tasks := (kv_tasks w)(nanoid rt 1 \<mapsto> new_task rt uid req),
                 kv_log := kv_log w @ [(nanoid rt 1, new_task rt uid req)]\<rparr>)
            else (ErrorJson 400 msg_use_generate, w))"
proof -
  from v have "cr_userId req = Some uid" "uid \<noteq> []" by (simp_all add: valid_request_def)
  then show ?thesis
    by (simp add: create_POST_def create_try_valid[OF v nt])
qed


lemma msg_use_generate_path:
  "\<exists>a b. msg_use_generate = a @ ''/api/emails/generate'' @ b"
proof -
  have h: "msg_use_generate =
     ([CHR 0xE8, CHR 0xAF, CHR 0xB7, CHR 0xE4, CHR 0xBD, CHR 0xBF, CHR 0xE7, CHR 0x94, CHR 0xA8]
        @ '' '') @ ''/api/emails/generate'' @
     ('' '' @ [CHR 0xE6, CHR 0x8E, CHR 0xA5, CHR 0xE5, CHR 0x8F,
     CHR 0xA3, CHR 0xE8, CHR 0xBF, CHR 0x9B, CHR 0xE8, CHR 0xA1, CHR 0x8C, CHR 0xE5, CHR
     0xB0, CHR 0x8F, CHR 0xE6, CHR 0x89, CHR 0xB9, CHR 0xE9, CHR 0x87, CHR 0x8F, CHR 0xE5,
     CHR 0x88, CHR 0x9B, CHR 0xE5, CHR 0xBB, CHR 0xBA, CHR 0xEF, CHR 0xBC, CHR 0x88, CHR
     0xE2, CHR 0x89, CHR 0xA4] @ ''50'' @ [CHR 0xEF, CHR 0xBC, CHR 0x89])"
    by (simp add: msg_use_generate_def)
  show ?thesis by (rule exI, rule exI, rule h)
qed

text \<open>
  C5, as the code has it. The threshold is exclusive: for a request that passes the checks
  of user, expiry time, domain and quota, and whose storage operations do not throw, the
  create route answers 400 and points to \<^verbatim>\<open>/api/emails/generate\<close> exactly when the requested count is at most 50, the threshold
  included; for a count above 50 it stores a task in status pending
  with both counters at zero and returns its identifier.
\<close>

theorem create_threshold:
  assumes v: "valid_request rt opts uid req w" and nt: "\<forall>p. throws rt p = None"
  shows "ASYNC_THRESHOLD = 50 \<and>
         (batch_count req \<le> ASYNC_THRESHOLD \<longrightarrow>
            create_POST rt opts req w = (ErrorJson 400 msg_use_generate, w)) \<and>
         (\<exists>a b. msg_use_generate = a @ ''/api/emails/generate'' @ b) \<and>
         (ASYNC_THRESHOLD < batch_count req \<longrightarrow>
            create_POST rt opts req w =
              (CreatedJson (nanoid rt 1) Pending msg_batch_started,
               w\<lparr>kv_tasks := (kv_tasks w)(nanoid rt 1 \<mapsto> new_task rt uid req),
                 kv_log := kv_log w @ [(nanoid rt 1, new_task rt uid req)]\<rparr>) \<and>
            taskId (new_task rt uid req) = nanoid rt 1 \<and>
            userId (new_task rt uid req) = uid \<and>
            status (new_task rt uid req) = Pending \<and>
            totalCount (new_task rt uid req) = batch_count req \<and>
            processedCount (new_task rt uid req) = 0 \<and>
            createdCount (new_task rt uid req) = 0)"
  using create_POST_valid[OF v nt] msg_use_generate_path
  by (simp add: ASYNC_THRESHOLD_def new_task_def)

theorem create_threshold_witness:
  "valid_request c5_rt c5_options ''alice'' c5_req51 c5_world \<and> batch_count c5_req51 = 51 \<and>
   create_POST c5_rt c5_options c5_req51 c5_world =
     (CreatedJson ''V1StGXR8_Z5jdHi6'' Pending msg_batch_started,
      c5_world\<lparr>kv_tasks := (kv_tasks c5_world)(''V1StGXR8_Z5jdHi6'' \<mapsto>
                   new_task c5_rt ''alice'' c5_req51),
                kv_log := kv_log c5_world @ [(''V1StGXR8_Z5jdHi6'',
                   new_task c5_rt ''alice'' c5_req51)]\<rparr>) \<and>
   status (new_task c5_rt ''alice'' c5_req51) = Pending \<and>
   totalCount (new_task c5_rt ''alice'' c5_req51) = 51"
proof -
  have v: "valid_request c5_rt c5_options ''alice'' c5_req51 c5_world" by code_simp
  have nt: "\<forall>p. throws c5_rt p = None" by (simp add: c5_rt_def)
  have b: "batch_count c5_req51 = 51" by (simp add: batch_count_def c5_req51_def)
  have n: "nanoid c5_rt 1 = ''V1StGXR8_Z5jdHi6''" by (simp add: c5_rt_def)
  from create_threshold[OF v nt] v b n show ?thesis by simp
qed

text \<open>The claim with the threshold included fails at the threshold: a request for exactly 50
  addresses that passes every check is answered 400, and no task is stored.\<close>

theorem create_threshold_counterexample:
  "valid_request c5_rt c5_options ''alice'' c5_req50 c5_world \<and>
   batch_count c5_req50 = 50 \<and> \<not> batch_count c5_req50 < 50 \<and>
   fst (create_POST c5_rt c5_options c5_req50 c5_world) = ErrorJson 400 msg_use_generate \<and>
   kv_tasks (snd (create_POST c5_rt c5_options c5_req50 c5_world)) (nanoid c5_rt 1) = None"
  by code_simp

subsection \<open>Who may use a task\<close>

lemma status_GET_foreign:
  "kv_tasks w tid = Some task \<Longrightarrow> userId task \<noteq> u \<Longrightarrow> u \<noteq> [] \<Longrightarrow>
   status_GET rt (Some u) tid w =
     (if throws rt KvGetTask = None then ErrorJson 403 msg_forbidden_task
      else ErrorJson 500 msg_status_failed)"
  by (auto simp: status_GET_def split: option.splits)

lemma download_GET_foreign:
  "kv_tasks w tid = Some task \<Longrightarrow> userId task \<noteq> u \<Longrightarrow> u \<noteq> [] \<Longrightarrow>
   download_GET rt (Some u) tid w =
     (if throws rt KvGetTask = None then ErrorJson 403 msg_forbidden_task
      else ErrorJson 500 msg_download_failed)"
  by (auto simp: download_GET_def split: option.splits)

lemma download_GET_foreign_row:
  "kv_tasks w tid = None \<Longrightarrow> batch_tasks w tid = Some dbTask \<Longrightarrow> row_userId dbTask \<noteq> u \<Longrightarrow>
   u \<noteq> [] \<Longrightarrow>
   download_GET rt (Some u) tid w =
     (if throws rt KvGetTask = None \<and> throws rt DbFindBatchTask = None
      then ErrorJson 403 msg_forbidden_task else ErrorJson 500 msg_download_failed)"
  by (auto simp: download_GET_def split: option.splits)

text \<open>
  C1, as the code has it. The status read and the download are scoped to the owner: a
  request of a user who is not the owner of the stored task is answered 403 (500 if the read
  of the task throws), so it carries nothing of the task, and neither handler writes. The
  download does the same with the history row when the stored task has expired. The advance
  operation takes no requester: its answer and its effect are the same for every caller.
\<close>

theorem reads_scoped_to_owner:
  assumes u: "u \<noteq> []"
  shows "(\<forall>task. kv_tasks w tid = Some task \<and> userId task \<noteq> u \<longrightarrow>
            serve rt StatusRead (Some u) tid w =
              (if throws rt KvGetTask = None then ErrorJson 403 msg_forbidden_task
               else ErrorJson 500 msg_status_failed, w) \<and>
            serve rt Download (Some u) tid w =
              (if throws rt KvGetTask = None then ErrorJson 403 msg_forbidden_task
               else ErrorJson 500 msg_download_failed, w)) \<and>
         (\<forall>dbTask. kv_tasks w tid = None \<and> batch_tasks w tid = Some dbTask \<and>
                   row_userId dbTask \<noteq> u \<longrightarrow>
            serve rt Download (Some u) tid w =
              (if throws rt KvGetTask = None \<and> throws rt DbFindBatchTask = None
               then ErrorJson 403 msg_forbidden_task else ErrorJson 500 msg_download_failed, w)) \<and>
         snd (serve rt StatusRead requester tid w) = w \<and>
         snd (serve rt Download requester tid w) = w \<and>
         serve rt Advance requester tid w = process_POST rt (Some tid) w"
  using u
  by (auto simp: serve_def status_GET_foreign download_GET_foreign download_GET_foreign_row)

theorem reads_scoped_to_owner_witness:
  "kv_tasks c9_world ''t001'' = Some c9_task \<and> userId c9_task \<noteq> ''mallory'' \<and>
   serve c9_rt StatusRead (Some ''mallory'') ''t001'' c9_world
     = (ErrorJson 403 msg_forbidden_task, c9_world) \<and>
   serve c9_rt Download (Some ''mallory'') ''t001'' c9_world
     = (ErrorJson 403 msg_forbidden_task, c9_world)"
proof -
  have a: "kv_tasks c9_world ''t001'' = Some c9_task" "userId c9_task \<noteq> ''mallory''"
    "throws c9_rt KvGetTask = None"
    by (simp_all add: c9_world_def c9_task_def c9_rt_def)
  have u: "''mallory'' \<noteq> []" by simp
  from reads_scoped_to_owner[OF u, of c9_world "''t001''" c9_rt] a show ?thesis by simp
qed

text \<open>The claim fails for the advance operation: a call made with the credentials of a user
  who does not own the task is answered 200, advances the task and inserts an address for the
  owner.\<close>

theorem advance_not_scoped_counterexample:
  "c1_requester = Some ''mallory'' \<and> kv_tasks c9_world ''t001'' = Some c9_task \<and>
   userId c9_task = ''alice'' \<and>
   fst (serve c9_rt Advance c1_requester ''t001'' c9_world) =
     ProgressJson \<lparr>pb_status = Processing, pb_error = None, pb_processed = 59, pb_total = 60,
                   pb_created = 59, pb_progress = Some 98, pb_message = None,
                   pb_hasMore = Some True\<rparr> \<and>
   map_option processedCount (kv_tasks (snd (serve c9_rt Advance c1_requester ''t001'' c9_world))
      ''t001'') = Some 59 \<and>
   map email_userId (emails (snd (serve c9_rt Advance c1_requester ''t001'' c9_world)))
     = [''alice'']"
  by code_simp


subsection \<open>The example run\<close>







lemma length_chunk_rows: "length (chunk_rows rt task) = nat (chunk_size task)"
  by (simp add: chunk_rows_def)






subsection \<open>Counters and status of the persisted tasks\<close>








subsection \<open>Downloading the addresses\<close>















subsection \<open>A task of 250 addresses\<close>

lemma address_list_status [simp]:
  "address_list (t\<lparr>status := s, updatedAt := x\<rparr>) = address_list t"
  by (simp add: address_list_def)

lemma clean_call_result:
  assumes cur: "kv_tasks w tid = Some task" and ne: "tid \<noteq> []"
    and st: "status task = Pending \<or> status task = Processing"
    and lt: "processedCount task < totalCount task"
    and cl: "clean_call rt tid w"
  shows "\<exists>t1. kv_tasks (snd (process_POST rt (Some tid) w)) tid = Some t1 \<and>
              fst (process_POST rt (Some tid) w) = progress_response t1 \<and>
              processedCount t1 = processedCount task + chunk_size task \<and>
              createdCount t1 = createdCount task + chunk_size task \<and>
              totalCount t1 = totalCount task \<and>
              status t1 = (if processedCount task + chunk_size task = totalCount task
                           then Completed else Processing) \<and>
              length (address_list t1) = length (address_list task) + nat (chunk_size task) \<and>
              length (emails (snd (process_POST rt (Some tid) w)))
                = length (emails w) + nat (chunk_size task) \<and>
              domain t1 = domain task \<and>
              emails (snd (process_POST rt (Some tid) w)) = emails w @ chunk_rows rt task"
proof -
  from lt have n: "0 \<le> chunk_size task" "chunk_size task \<le> totalCount task - processedCount task"
    by (simp_all add: chunk_size_def PROCESS_BATCH_SIZE_def)
  let ?rows = "chunk_rows rt task"
  have len: "int (length ?rows) = chunk_size task" using n(1) by (simp add: length_chunk_rows)
  show ?thesis
  proof (cases "status task = Processing")
    case True
    let ?t1 = "advanced rt task ?rows"
    have le: "processedCount task + int (length ?rows) \<le> totalCount task"
      using n(2) len by simp
    note r = clean_call_processing[OF cur ne True lt cl]
    have "kv_tasks (snd (process_POST rt (Some tid) w)) tid = Some ?t1"
      "fst (process_POST rt (Some tid) w) = progress_response ?t1"
      "length (emails (snd (process_POST rt (Some tid) w))) = length (emails w) + nat (chunk_size task)"
      "emails (snd (process_POST rt (Some tid) w)) = emails w @ chunk_rows rt task"
      using r by (simp_all add: length_chunk_rows)
    moreover have "processedCount ?t1 = processedCount task + chunk_size task"
      "createdCount ?t1 = createdCount task + chunk_size task"
      "totalCount ?t1 = totalCount task"
      "status ?t1 = (if processedCount task + chunk_size task = totalCount task
                           then Completed else Processing)"
      "length (address_list ?t1) = length (address_list task) + nat (chunk_size task)"
      "domain ?t1 = domain task"
      using advanced_processed[OF le, of rt] advanced_status[OF le, of rt] True len
      by (simp_all add: advanced_fields length_chunk_rows)
    ultimately show ?thesis by blast
  next
    case False
    with st have pe: "status task = Pending" by simp
    let ?t0 = "task\<lparr>status := Processing, updatedAt := clock rt AtMarkProcessing\<rparr>"
    let ?t1 = "advanced rt ?t0 ?rows"
    have le: "processedCount ?t0 + int (length ?rows) \<le> totalCount ?t0"
      using n(2) len by simp
    note r = clean_call_pending[OF cur ne pe lt cl refl]
    have "kv_tasks (snd (process_POST rt (Some tid) w)) tid = Some ?t1"
      "fst (process_POST rt (Some tid) w) = progress_response ?t1"
      "length (emails (snd (process_POST rt (Some tid) w))) = length (emails w) + nat (chunk_size task)"
      "emails (snd (process_POST rt (Some tid) w)) = emails w @ chunk_rows rt task"
      using r by (simp_all add: length_chunk_rows)
    moreover have "processedCount ?t1 = processedCount task + chunk_size task"
      "createdCount ?t1 = createdCount task + chunk_size task"
      "totalCount ?t1 = totalCount task"
      "status ?t1 = (if processedCount task + chunk_size task = totalCount task
                           then Completed else Processing)"
      "length (address_list ?t1) = length (address_list task) + nat (chunk_size task)"
      "domain ?t1 = domain task"
      using advanced_processed[OF le, of rt] advanced_status[OF le, of rt] len
      by (simp_all add: advanced_fields length_chunk_rows)
    ultimately show ?thesis by blast
  qed
qed


text \<open>
  C6. Take a stored task as the create route makes it for 250 addresses (pending, both
  counters zero) and three successive calls of advance in which no storage operation throws
  and no generated address collides. The calls insert 100, 100 and 50 addresses, which is
  \<open>min (100, totalCount - processedCount)\<close> each time; they answer with
  \<open>processedCount\<close> 100, 200 and 250; the task is in status processing after the first and
  the second call and completed after the third, with \<open>createdCount = 250\<close> and 250
  addresses in its list.
\<close>

theorem three_calls_for_250:
  assumes cur: "kv_tasks w0 tid = Some task" and ne: "tid \<noteq> []"
    and new: "status task = Pending" "totalCount task = 250" "processedCount task = 0"
      "createdCount task = 0" "emailList task = None"
    and w1: "w1 = snd (process_POST rt1 (Some tid) w0)"
    and w2: "w2 = snd (process_POST rt2 (Some tid) w1)"
    and w3: "w3 = snd (process_POST rt3 (Some tid) w2)"
    and c1: "clean_call rt1 tid w0" and c2: "clean_call rt2 tid w1"
    and c3: "clean_call rt3 tid w2"
  shows "fst (process_POST rt1 (Some tid) w0) =
           ProgressJson \<lparr>pb_status = Processing, pb_error = None, pb_processed = 100,
                         pb_total = 250, pb_created = 100, pb_progress = Some 40,
                         pb_message = None, pb_hasMore = Some True\<rparr> \<and>
         fst (process_POST rt2 (Some tid) w1) =
           ProgressJson \<lparr>pb_status = Processing, pb_error = None, pb_processed = 200,
                         pb_total = 250, pb_created = 200, pb_progress = Some 80,
                         pb_message = None, pb_hasMore = Some True\<rparr> \<and>
         fst (process_POST rt3 (Some tid) w2) =
           ProgressJson \<lparr>pb_status = Completed, pb_error = None, pb_processed = 250,
                         pb_total = 250, pb_created = 250, pb_progress = Some 100,
                         pb_message = None, pb_hasMore = Some False\<rparr> \<and>
         (\<exists>t1 t2 t3.
            kv_tasks w1 tid = Some t1 \<and> status t1 = Processing \<and> processedCount t1 = 100 \<and>
            createdCount t1 = 100 \<and>
            kv_tasks w2 tid = Some t2 \<and> status t2 = Processing \<and> processedCount t2 = 200 \<and>
            createdCount t2 = 200 \<and>
            kv_tasks w3 tid = Some t3 \<and> status t3 = Completed \<and> processedCount t3 = 250 \<and>
            createdCount t3 = 250 \<and> length (address_list t3) = 250) \<and>
         length (emails w1) = length (emails w0) + 100 \<and>
         length (emails w2) = length (emails w0) + 200 \<and>
         length (emails w3) = length (emails w0) + 250"
proof -
  have cs0: "chunk_size task = 100"
    by (simp add: chunk_size_def new PROCESS_BATCH_SIZE_def)
  have al0: "address_list task = []" by (simp add: address_list_def new)
  from clean_call_result[OF cur ne _ _ c1] new cs0 al0 obtain t1 where
    t1: "kv_tasks w1 tid = Some t1" "fst (process_POST rt1 (Some tid) w0) = progress_response t1"
      "processedCount t1 = 100" "createdCount t1 = 100" "totalCount t1 = 250"
      "status t1 = Processing" "length (address_list t1) = 100"
      "length (emails w1) = length (emails w0) + 100"
    unfolding w1 by auto
  have cs1: "chunk_size t1 = 100"
    by (simp add: chunk_size_def t1 PROCESS_BATCH_SIZE_def)
  from clean_call_result[OF t1(1) ne _ _ c2] t1 cs1 obtain t2 where
    t2: "kv_tasks w2 tid = Some t2" "fst (process_POST rt2 (Some tid) w1) = progress_response t2"
      "processedCount t2 = 200" "createdCount t2 = 200" "totalCount t2 = 250"
      "status t2 = Processing" "length (address_list t2) = 200"
      "length (emails w2) = length (emails w0) + 200"
    unfolding w2 by auto
  have cs2: "chunk_size t2 = 50"
    by (simp add: chunk_size_def t2 PROCESS_BATCH_SIZE_def)
  from clean_call_result[OF t2(1) ne _ _ c3] t2 cs2 obtain t3 where
    t3: "kv_tasks w3 tid = Some t3" "fst (process_POST rt3 (Some tid) w2) = progress_response t3"
      "processedCount t3 = 250" "createdCount t3 = 250" "totalCount t3 = 250"
      "status t3 = Completed" "length (address_list t3) = 250"
      "length (emails w3) = length (emails w0) + 250"
    unfolding w3 by auto
  have r1: "progress_response t1 =
           ProgressJson \<lparr>pb_status = Processing, pb_error = None, pb_processed = 100,
                         pb_total = 250, pb_created = 100, pb_progress = Some 40,
                         pb_message = None, pb_hasMore = Some True\<rparr>"
    by (simp add: progress_response_def t1 progress_of_def)
  have r2: "progress_response t2 =
           ProgressJson \<lparr>pb_status = Processing, pb_error = None, pb_processed = 200,
                         pb_total = 250, pb_created = 200, pb_progress = Some 80,
                         pb_message = None, pb_hasMore = Some True\<rparr>"
    by (simp add: progress_response_def t2 progress_of_def)
  have r3: "progress_response t3 =
           ProgressJson \<lparr>pb_status = Completed, pb_error = None, pb_processed = 250,
                         pb_total = 250, pb_created = 250, pb_progress = Some 100,
                         pb_message = None, pb_hasMore = Some False\<rparr>"
    by (simp add: progress_response_def t3 progress_of_def)
  have ex: "\<exists>t1 t2 t3.
            kv_tasks w1 tid = Some t1 \<and> status t1 = Processing \<and> processedCount t1 = 100 \<and>
            createdCount t1 = 100 \<and>
            kv_tasks w2 tid = Some t2 \<and> status t2 = Processing \<and> processedCount t2 = 200 \<and>
            createdCount t2 = 200 \<and>
            kv_tasks w3 tid = Some t3 \<and> status t3 = Completed \<and> processedCount t3 = 250 \<and>
            createdCount t3 = 250 \<and> length (address_list t3) = 250"
    using t1(1,3,4,6) t2(1,3,4,6) t3(1,3,4,6,7) by blast
  show ?thesis
    using t1(2,8) t2(2,8) t3(2,8) ex unfolding r1 r2 r3 by simp
qed


lemma d_candidate_shift: "candidate (d_rt off) t k = candidate (d_rt 0) t (off + k)"
  by (simp add: candidate_def d_rt_def)

lemma d_fresh:
  assumes b: "off + nat (chunk_size t) < 1000"
    and tbl: "\<forall>x \<in> set (emails w). \<exists>m. m \<le> off \<and>
                toLowerCase (email_address x) = toLowerCase (candidate (d_rt 0) t m)"
  shows "fresh_candidates (d_rt off) w t"
proof -
  have d: "distinct (map (\<lambda>k. toLowerCase (candidate (d_rt off) t k))
             [1..<Suc (nat (chunk_size t))])"
    by (rule d_candidates_distinct[OF b])
  have f: "find_email_lower (emails w) (toLowerCase (candidate (d_rt off) t k)) = None"
    if k: "k \<in> set [1..<Suc (nat (chunk_size t))]" for k
  proof -
    have "toLowerCase (email_address x) \<noteq> toLowerCase (candidate (d_rt off) t k)"
      if x: "x \<in> set (emails w)" for x
    proof
      assume e: "toLowerCase (email_address x) = toLowerCase (candidate (d_rt off) t k)"
      from tbl x obtain m where m: "m \<le> off"
        "toLowerCase (email_address x) = toLowerCase (candidate (d_rt 0) t m)" by blast
      from k b have kb: "1 \<le> k" "off + k < 1000" by auto
      from m(1) b have mb: "0 + m < 1000" by simp
      from e m(2) have "toLowerCase (candidate (d_rt 0) t m) = toLowerCase (candidate (d_rt off) t k)"
        by simp
      from d_candidate_inj[OF mb kb(2) refl this] m(1) kb(1) show False by simp
    qed
    then show ?thesis by (simp add: find_email_lower_None)
  qed
  from d f show ?thesis by (simp add: fresh_candidates_def list_all_iff)
qed

lemma d_rows_table:
  assumes "x \<in> set (chunk_rows (d_rt off) t)"
  shows "\<exists>m. m \<le> off + nat (chunk_size t) \<and>
             toLowerCase (email_address x) = toLowerCase (candidate (d_rt 0) t m)"
proof -
  from assms obtain k where k: "1 \<le> k" "k \<le> nat (chunk_size t)"
    and x: "email_address x = candidate (d_rt off) t k"
    by (auto simp: chunk_rows_def candidate_row_def)
  have "off + k \<le> off + nat (chunk_size t)" using k(2) by simp
  moreover have "toLowerCase (email_address x) = toLowerCase (candidate (d_rt 0) t (off + k))"
    by (simp add: x d_candidate_shift[of off])
  ultimately show ?thesis by blast
qed

lemma candidate_domain: "domain t' = domain t \<Longrightarrow> candidate rt t' k = candidate rt t k"
  by (simp add: candidate_def)

text \<open>One call of the example generator on a world whose addresses it produced before.\<close>

lemma d_step:
  assumes cur: "kv_tasks w tid = Some t" and ne: "tid \<noteq> []"
    and st: "status t = Pending \<or> status t = Processing"
    and lt: "processedCount t < totalCount t"
    and b: "off + nat (chunk_size t) < 1000"
    and tbl: "\<forall>x \<in> set (emails w). \<exists>m. m \<le> off \<and>
                toLowerCase (email_address x) = toLowerCase (candidate (d_rt 0) t m)"
    and w': "w' = snd (process_POST (d_rt off) (Some tid) w)"
  shows "clean_call (d_rt off) tid w \<and>
         (\<exists>t1. kv_tasks w' tid = Some t1 \<and>
               processedCount t1 = processedCount t + chunk_size t \<and>
               totalCount t1 = totalCount t \<and>
               status t1 = (if processedCount t + chunk_size t = totalCount t
                            then Completed else Processing) \<and>
               (\<forall>x \<in> set (emails w'). \<exists>m. m \<le> off + nat (chunk_size t) \<and>
                  toLowerCase (email_address x) = toLowerCase (candidate (d_rt 0) t1 m)))"
proof -
  have cl: "clean_call (d_rt off) tid w"
    using d_fresh[OF b tbl] cur by (simp add: clean_call_def d_rt_def)
  from clean_call_result[OF cur ne st lt cl] obtain t1 where
    t1: "kv_tasks w' tid = Some t1" "processedCount t1 = processedCount t + chunk_size t"
      "totalCount t1 = totalCount t"
      "status t1 = (if processedCount t + chunk_size t = totalCount t
                    then Completed else Processing)"
      "domain t1 = domain t" "emails w' = emails w @ chunk_rows (d_rt off) t"
    unfolding w' by blast
  have "\<exists>m. m \<le> off + nat (chunk_size t) \<and>
             toLowerCase (email_address x) = toLowerCase (candidate (d_rt 0) t1 m)"
    if x: "x \<in> set (emails w')" for x
  proof (cases "x \<in> set (emails w)")
    case True
    with tbl obtain m where "m \<le> off"
      "toLowerCase (email_address x) = toLowerCase (candidate (d_rt 0) t m)" by blast
    then have "m \<le> off + nat (chunk_size t) \<and>
               toLowerCase (email_address x) = toLowerCase (candidate (d_rt 0) t1 m)"
      by (simp add: candidate_domain[OF t1(5)])
    then show ?thesis by blast
  next
    case False
    with x t1(6) have "x \<in> set (chunk_rows (d_rt off) t)" by simp
    from d_rows_table[OF this] show ?thesis by (simp add: candidate_domain[OF t1(5)])
  qed
  with cl t1(1-4) show ?thesis by blast
qed


lemma c6_task_fields:
  "status c6_task = Pending" "totalCount c6_task = 250" "processedCount c6_task = 0"
  "createdCount c6_task = 0" "emailList c6_task = None"
  by (simp_all add: c6_task_def new_task_def c6_req_def batch_count_def)

lemma c6_w0_fields:
  "kv_tasks c6_w0 ''V1StGXR8_Z5jdHi6'' = Some c6_task" "emails c6_w0 = []"
proof -
  have v: "valid_request c5_rt c5_options ''alice'' c6_req c5_world" by code_simp
  have nt: "\<forall>p. throws c5_rt p = None" by (simp add: c5_rt_def)
  have b: "ASYNC_THRESHOLD < batch_count c6_req"
    by (simp add: batch_count_def c6_req_def ASYNC_THRESHOLD_def)
  have n: "nanoid c5_rt 1 = ''V1StGXR8_Z5jdHi6''" by (simp add: c5_rt_def)
  have e: "c6_w0 = c5_world\<lparr>kv_tasks := (kv_tasks c5_world)(''V1StGXR8_Z5jdHi6'' \<mapsto> c6_task),
                   kv_log := kv_log c5_world @ [(''V1StGXR8_Z5jdHi6'', c6_task)]\<rparr>"
    unfolding c6_w0_def c6_task_def create_POST_valid[OF v nt] using b n by simp
  show "kv_tasks c6_w0 ''V1StGXR8_Z5jdHi6'' = Some c6_task" "emails c6_w0 = []"
    unfolding e by (simp_all add: c5_world_def)
qed

theorem three_calls_for_250_witness:
  "kv_tasks c6_w0 ''V1StGXR8_Z5jdHi6'' = Some c6_task \<and> status c6_task = Pending \<and>
   totalCount c6_task = 250 \<and> processedCount c6_task = 0 \<and> createdCount c6_task = 0 \<and>
   clean_call (d_rt 0) ''V1StGXR8_Z5jdHi6'' c6_w0 \<and>
   clean_call (d_rt 100) ''V1StGXR8_Z5jdHi6'' c6_w1 \<and>
   clean_call (d_rt 200) ''V1StGXR8_Z5jdHi6'' c6_w2 \<and>
   fst (process_POST (d_rt 0) (Some ''V1StGXR8_Z5jdHi6'') c6_w0) =
     ProgressJson \<lparr>pb_status = Processing, pb_error = None, pb_processed = 100,
                   pb_total = 250, pb_created = 100, pb_progress = Some 40,
                   pb_message = None, pb_hasMore = Some True\<rparr> \<and>
   fst (process_POST (d_rt 100) (Some ''V1StGXR8_Z5jdHi6'') c6_w1) =
     ProgressJson \<lparr>pb_status = Processing, pb_error = None, pb_processed = 200,
                   pb_total = 250, pb_created = 200, pb_progress = Some 80,
                   pb_message = None, pb_hasMore = Some True\<rparr> \<and>
   fst (process_POST (d_rt 200) (Some ''V1StGXR8_Z5jdHi6'') c6_w2) =
     ProgressJson \<lparr>pb_status = Completed, pb_error = None, pb_processed = 250,
                   pb_total = 250, pb_created = 250, pb_progress = Some 100,
                   pb_message = None, pb_hasMore = Some False\<rparr> \<and>
   length (emails c6_w1) = 100 \<and> length (emails c6_w2) = 200 \<and> length (emails c6_w3) = 250"
proof -
  note f = c6_task_fields
  have ne: "''V1StGXR8_Z5jdHi6'' \<noteq> []" by simp
  have cs0: "chunk_size c6_task = 100" by (simp add: chunk_size_def f PROCESS_BATCH_SIZE_def)
  from d_step[where off = 0, OF c6_w0_fields(1) ne _ _ _ _ c6_w1_def] f cs0 c6_w0_fields(2)
  obtain t1 where c1: "clean_call (d_rt 0) ''V1StGXR8_Z5jdHi6'' c6_w0"
    and t1: "kv_tasks c6_w1 ''V1StGXR8_Z5jdHi6'' = Some t1" "processedCount t1 = 100"
      "totalCount t1 = 250" "status t1 = Processing"
      "\<forall>x \<in> set (emails c6_w1). \<exists>m. m \<le> 100 \<and>
          toLowerCase (email_address x) = toLowerCase (candidate (d_rt 0) t1 m)"
    by auto
  have cs1: "chunk_size t1 = 100" by (simp add: chunk_size_def t1 PROCESS_BATCH_SIZE_def)
  from d_step[OF t1(1) ne _ _ _ t1(5) c6_w2_def] t1(2-4) cs1
  obtain t2 where c2: "clean_call (d_rt 100) ''V1StGXR8_Z5jdHi6'' c6_w1"
    and t2: "kv_tasks c6_w2 ''V1StGXR8_Z5jdHi6'' = Some t2" "processedCount t2 = 200"
      "totalCount t2 = 250" "status t2 = Processing"
      "\<forall>x \<in> set (emails c6_w2). \<exists>m. m \<le> 200 \<and>
          toLowerCase (email_address x) = toLowerCase (candidate (d_rt 0) t2 m)"
    by auto
  have cs2: "chunk_size t2 = 50" by (simp add: chunk_size_def t2 PROCESS_BATCH_SIZE_def)
  from d_step[OF t2(1) ne _ _ _ t2(5) c6_w3_def] t2(2-4) cs2
  have c3: "clean_call (d_rt 200) ''V1StGXR8_Z5jdHi6'' c6_w2" by auto
  from three_calls_for_250[OF c6_w0_fields(1) ne f c6_w1_def c6_w2_def c6_w3_def c1 c2 c3]
    c6_w0_fields f c1 c2 c3
  show ?thesis by simp
qed

end
